theory Spec2Isabelle
  imports Complex_Main "HOL-Library.Sublist"
begin

section \<open>Python values and errors\<close>

text \<open>
  The exceptions that the two scripts can raise are values of \<open>py_error\<close>; a computation
  that may raise returns \<open>py_error + 'a\<close>, with \<open>Inl\<close> for the exception. \<open>OSError\<close> carries
  the name of any other error of the operating system (\<^verbatim>\<open>IsADirectoryError\<close>,
  \<^verbatim>\<open>NotADirectoryError\<close>, \<^verbatim>\<open>FileExistsError\<close>, \<^verbatim>\<open>PermissionError\<close> and so on).
\<close>

datatype py_error =
    IndexError
  | ValueError string
  | RuntimeError string
  | FileNotFoundError
  | OSError string
  | RequestException

definition try_bind :: "py_error + 'a \<Rightarrow> ('a \<Rightarrow> py_error + 'b) \<Rightarrow> py_error + 'b" where
  "try_bind m f = (case m of Inl e \<Rightarrow> Inl e | Inr x \<Rightarrow> f x)"

text \<open>A \<^verbatim>\<open>for\<close> loop whose body may raise: the first exception ends the loop.\<close>

fun for_loop :: "('a \<Rightarrow> 's \<Rightarrow> py_error + 's) \<Rightarrow> 'a list \<Rightarrow> 's \<Rightarrow> py_error + 's" where
  "for_loop body [] s = Inr s"
| "for_loop body (x # xs) s = try_bind (body x s) (for_loop body xs)"

text \<open>
  An index into a Python list of length \<open>len\<close>: \<open>0 .. len - 1\<close> counts from the front,
  \<open>-len .. -1\<close> from the end, anything else raises \<^verbatim>\<open>IndexError\<close>. \<open>py_get\<close> is
  \<^verbatim>\<open>xs[i]\<close> and \<open>py_set\<close> is \<^verbatim>\<open>xs[i] = v\<close>.
\<close>

definition py_index :: "nat \<Rightarrow> int \<Rightarrow> nat option" where
  "py_index len i =
     (if 0 \<le> i \<and> i < int len then Some (nat i)
      else if - int len \<le> i \<and> i < 0 then Some (nat (int len + i))
      else None)"

definition py_get :: "'a list \<Rightarrow> int \<Rightarrow> py_error + 'a" where
  "py_get xs i = (case py_index (length xs) i of None \<Rightarrow> Inl IndexError | Some j \<Rightarrow> Inr (xs ! j))"

definition py_set :: "'a list \<Rightarrow> int \<Rightarrow> 'a \<Rightarrow> py_error + 'a list" where
  "py_set xs i v =
     (case py_index (length xs) i of None \<Rightarrow> Inl IndexError | Some j \<Rightarrow> Inr (xs[j := v]))"

text \<open>\<^verbatim>\<open>range(n)\<close>: empty when \<open>n \<le> 0\<close>.\<close>

definition py_range :: "int \<Rightarrow> int list" where
  "py_range n = map int [0..<nat n]"

section \<open>LifeEngine: \<^verbatim>\<open>life_step\<close> and \<^verbatim>\<open>simulate\<close>\<close>

type_synonym matrix = "int list list"

text \<open>
  \<^verbatim>\<open>neighbors(r, c)\<close>, the closure inside \<^verbatim>\<open>life_step\<close>; \<open>state\<close>, \<open>rows\<close> and \<open>cols\<close> are
  the variables it captures. The two loops run over \<^verbatim>\<open>(-1, 0, 1)\<close>.
\<close>

definition neighbors :: "matrix \<Rightarrow> int \<Rightarrow> int \<Rightarrow> int \<Rightarrow> int \<Rightarrow> py_error + int" where
  "neighbors state rows cols r c =
     for_loop (\<lambda>dr. for_loop (\<lambda>dc s.
         if dr = 0 \<and> dc = 0 then Inr s
         else
           let rr = r + dr; cc = c + dc in
           if 0 \<le> rr \<and> rr < rows \<and> 0 \<le> cc \<and> cc < cols
           then try_bind (py_get state rr) (\<lambda>row.
                try_bind (py_get row cc) (\<lambda>v. Inr (s + v)))
           else Inr s) [-1, 0, 1]) [-1, 0, 1] 0"

text \<open>\<^verbatim>\<open>nxt[r][c] = v\<close>: the rows of \<open>nxt\<close> are separate lists, so only row \<open>r\<close> changes.\<close>

definition set_cell :: "matrix \<Rightarrow> int \<Rightarrow> int \<Rightarrow> int \<Rightarrow> py_error + matrix" where
  "set_cell nxt r c v =
     try_bind (py_get nxt r) (\<lambda>row.
     try_bind (py_set row c v) (\<lambda>row'. py_set nxt r row'))"

definition life_step :: "matrix \<Rightarrow> py_error + matrix" where
  "life_step state =
     (let rows = int (length state) in
      try_bind (if rows \<noteq> 0
                then try_bind (py_get state 0) (\<lambda>row0. Inr (int (length row0)))
                else Inr 0) (\<lambda>cols.
      let nxt = replicate (nat rows) (replicate (nat cols) 0) in
      for_loop (\<lambda>r. for_loop (\<lambda>c nxt.
          try_bind (neighbors state rows cols r c) (\<lambda>n.
          try_bind (py_get state r) (\<lambda>row.
          try_bind (py_get row c) (\<lambda>v.
            if v = 1 then set_cell nxt r c (if n = 2 \<or> n = 3 then 1 else 0)
            else set_cell nxt r c (if n = 3 then 1 else 0))))) (py_range cols))
        (py_range rows) nxt))"

text \<open>
  \<^verbatim>\<open>simulate\<close>: the loop runs \<^verbatim>\<open>range(steps - 1)\<close> times; its state is the pair of
  \<open>cur\<close> and \<open>frames\<close>.
\<close>

definition simulate :: "matrix \<Rightarrow> int \<Rightarrow> py_error + matrix list" where
  "simulate state steps =
     try_bind
       (for_loop (\<lambda>_ (cur, frames).
            try_bind (life_step cur) (\<lambda>cur'. Inr (cur', frames @ [cur'])))
          (py_range (steps - 1)) (state, [state]))
       (\<lambda>(cur, frames). Inr frames)"

subsection \<open>The rule as the specification words it\<close>

text \<open>
  A matrix is rectangular when every row has the length of the first; \<open>ncols\<close> is that
  length (0 for the matrix without rows). A position outside the bounds counts as 0.
\<close>

definition ncols :: "matrix \<Rightarrow> nat" where
  "ncols m = (case m of [] \<Rightarrow> 0 | row # _ \<Rightarrow> length row)"

definition rectangular :: "matrix \<Rightarrow> bool" where
  "rectangular m = (\<forall>row \<in> set m. length row = ncols m)"

definition binary :: "matrix \<Rightarrow> bool" where
  "binary m = (\<forall>row \<in> set m. \<forall>x \<in> set row. x = 0 \<or> x = 1)"

definition cell_at :: "matrix \<Rightarrow> int \<Rightarrow> int \<Rightarrow> int" where
  "cell_at m r c =
     (if 0 \<le> r \<and> r < int (length m) \<and> 0 \<le> c \<and> c < int (ncols m)
      then m ! nat r ! nat c else 0)"

definition moore_count :: "matrix \<Rightarrow> int \<Rightarrow> int \<Rightarrow> int" where
  "moore_count m r c =
     cell_at m (r - 1) (c - 1) + cell_at m (r - 1) c + cell_at m (r - 1) (c + 1)
   + cell_at m r (c - 1) + cell_at m r (c + 1)
   + cell_at m (r + 1) (c - 1) + cell_at m (r + 1) c + cell_at m (r + 1) (c + 1)"

definition next_cell :: "matrix \<Rightarrow> nat \<Rightarrow> nat \<Rightarrow> int" where
  "next_cell m r c =
     (let n = moore_count m (int r) (int c) in
      if m ! r ! c = 1 then (if n = 2 \<or> n = 3 then 1 else 0)
      else (if n = 3 then 1 else 0))"

definition next_gen :: "matrix \<Rightarrow> matrix" where
  "next_gen m = map (\<lambda>r. map (\<lambda>c. next_cell m r c) [0..<ncols m]) [0..<length m]"

text \<open>\<open>step_n i m\<close>: \<^verbatim>\<open>life_step\<close> applied \<open>i\<close> times, an exception ending the iteration.\<close>

fun step_n :: "nat \<Rightarrow> matrix \<Rightarrow> py_error + matrix" where
  "step_n 0 m = Inr m"
| "step_n (Suc i) m = try_bind (step_n i m) life_step"

text \<open>The loop invariant of \<^verbatim>\<open>life_step\<close>: \<open>nxt\<close> keeps its \<open>rows \<times> cols\<close> shape.\<close>

definition shaped :: "nat \<Rightarrow> nat \<Rightarrow> matrix \<Rightarrow> bool" where
  "shaped rows cols nxt = (length nxt = rows \<and> (\<forall>row \<in> set nxt. length row = cols))"

section \<open>ImageValidator: \<^verbatim>\<open>main\<close> of \<^verbatim>\<open>validate_svg.py\<close>\<close>

text \<open>
  An element of an \<^verbatim>\<open>ElementTree\<close>: its tag (\<^verbatim>\<open>{uri}local\<close> for a name in a namespace), its
  attributes and its children. \<open>iter\<close> is \<^verbatim>\<open>Element.iter()\<close>: the element, then its
  descendants in document order.
\<close>

datatype element =
  Element (tag: string) (attrib: "(string \<times> string) list") (children: "element list")

fun iter :: "element \<Rightarrow> element list" where
  "iter (Element t a cs) = Element t a cs # concat (map iter cs)"

text \<open>
  The string methods the validator calls. Characters are bytes here, so \<open>py_lower\<close>
  folds the ASCII capitals only.
\<close>

definition lower_char :: "char \<Rightarrow> char" where
  "lower_char c =
     (case map_of (zip ''ABCDEFGHIJKLMNOPQRSTUVWXYZ'' ''abcdefghijklmnopqrstuvwxyz'') c of
        None \<Rightarrow> c | Some l \<Rightarrow> l)"

definition py_lower :: "string \<Rightarrow> string" where
  "py_lower s = map lower_char s"

definition py_endswith :: "string \<Rightarrow> string \<Rightarrow> bool" where
  "py_endswith s suf = suffix suf s"

text \<open>\<^verbatim>\<open>s.split(sep)\<close> for a separator of one character: never the empty list.\<close>

fun py_split :: "char \<Rightarrow> string \<Rightarrow> string list" where
  "py_split sep [] = [[]]"
| "py_split sep (c # cs) =
     (if c = sep then [] # py_split sep cs
      else (case py_split sep cs of w # ws \<Rightarrow> (c # w) # ws | [] \<Rightarrow> [[c]]))"

text \<open>\<^verbatim>\<open>Element.get(key)\<close>, and Python's \<^verbatim>\<open>not v\<close> for \<open>v\<close> a string or \<^verbatim>\<open>None\<close>.\<close>

definition element_get :: "element \<Rightarrow> string \<Rightarrow> string option" where
  "element_get e k = map_of (attrib e) k"

definition falsy :: "string option \<Rightarrow> bool" where
  "falsy v = (case v of None \<Rightarrow> True | Some s \<Rightarrow> s = [])"

text \<open>
  \<^verbatim>\<open>main(path)\<close>, as a function of what \<^verbatim>\<open>ET.parse(path).getroot()\<close> gives: \<open>None\<close> when
  it raises (the file is missing, unreadable or not well-formed), the root element
  otherwise. The result is the exit code; the printed line is not modelled.
\<close>

definition validate_main :: "element option \<Rightarrow> int" where
  "validate_main parsed =
     (case parsed of
        None \<Rightarrow> 2
      | Some root_elem \<Rightarrow>
          if py_endswith (py_lower (tag root_elem)) ''svg'' then
            (let w = element_get root_elem ''width''; h = element_get root_elem ''height'' in
             if falsy w \<or> falsy h then 3
             else
               let nsless = map (\<lambda>elem. last (py_split CHR ''}'' (tag elem))) (iter root_elem) in
               if ''animate'' \<notin> set nsless then 5 else 0)
          else 4)"

subsection \<open>The validator as the specification words it\<close>

text \<open>
  The local name of a tag is what follows the last \<^verbatim>\<open>}\<close>, the whole tag when there is
  none. \<open>validate_spec\<close> follows the specification: the root is the vector-image root
  when its local name is \<^verbatim>\<open>svg\<close>, it lacks an attribute when the attribute is absent, and
  an element is animation-capable when its local name is \<^verbatim>\<open>animate\<close>.
\<close>

definition local_name :: "string \<Rightarrow> string" where
  "local_name t = rev (takeWhile (\<lambda>c. c \<noteq> CHR ''}'') (rev t))"

definition validate_spec :: "element option \<Rightarrow> int" where
  "validate_spec parsed =
     (case parsed of
        None \<Rightarrow> 2
      | Some root_elem \<Rightarrow>
          if local_name (tag root_elem) \<noteq> ''svg'' then 4
          else if element_get root_elem ''width'' = None \<or> element_get root_elem ''height'' = None then 3
          else if \<not> (\<exists>e \<in> set (iter root_elem). local_name (tag e) = ''animate'') then 5
          else 0)"

section \<open>GridFetcher: \<^verbatim>\<open>fetch_contributions_matrix\<close>\<close>

text \<open>
  A node of the tree that BeautifulSoup builds: a tag with its name, its attribute
  dictionary (an association list read with \<open>map_of\<close>) and its contents, or a string.
\<close>

datatype node =
    Tag (name: string) (attrs: "(string \<times> string) list") (contents: "node list")
  | NavigableString string

text \<open>
  \<^verbatim>\<open>find_all(name)\<close> returns the descendants with that tag name, in document order, and
  \<^verbatim>\<open>find(name)\<close> the first of them or \<^verbatim>\<open>None\<close>. \<^verbatim>\<open>Tag.get(key, default)\<close> reads the attribute
  dictionary.
\<close>

fun descendants :: "node \<Rightarrow> node list" where
  "descendants (Tag n a cs) = concat (map (\<lambda>c. c # descendants c) cs)"
| "descendants (NavigableString s) = []"

definition named :: "string \<Rightarrow> node \<Rightarrow> bool" where
  "named nm d = (case d of Tag n a cs \<Rightarrow> n = nm | NavigableString s \<Rightarrow> False)"

definition find_all :: "node \<Rightarrow> string \<Rightarrow> node list" where
  "find_all nd nm = filter (named nm) (descendants nd)"

definition find_first :: "node \<Rightarrow> string \<Rightarrow> node option" where
  "find_first nd nm = (case find_all nd nm of [] \<Rightarrow> None | d # ds \<Rightarrow> Some d)"

definition tag_get :: "node \<Rightarrow> string \<Rightarrow> string option" where
  "tag_get nd k = (case nd of Tag n a cs \<Rightarrow> map_of a k | NavigableString s \<Rightarrow> None)"

definition tag_get_default :: "node \<Rightarrow> string \<Rightarrow> string \<Rightarrow> string" where
  "tag_get_default nd k dflt = (case tag_get nd k of None \<Rightarrow> dflt | Some v \<Rightarrow> v)"

text \<open>
  \<^verbatim>\<open>r == rect\<close> on two tags: BeautifulSoup compares the names, the attribute dictionaries
  and the contents, child by child. Two different elements with the same markup are equal.
\<close>

definition dict_eq :: "(string \<times> string) list \<Rightarrow> (string \<times> string) list \<Rightarrow> bool" where
  "dict_eq a b = list_all (\<lambda>k. map_of a k = map_of b k) (map fst a @ map fst b)"

fun node_eq :: "node \<Rightarrow> node \<Rightarrow> bool" where
  "node_eq (Tag n a cs) (Tag n' a' cs') = (n = n' \<and> dict_eq a a' \<and> list_all2 node_eq cs cs')"
| "node_eq (NavigableString s) (NavigableString s') = (s = s')"
| "node_eq (Tag n a cs) (NavigableString s') = False"
| "node_eq (NavigableString s) (Tag n' a' cs') = False"

text \<open>
  The row of a rectangle is \<^verbatim>\<open>int(int(float(y)) / 10)\<close>. The function \<open>float_int\<close> stands for
  Python's \<^verbatim>\<open>int(float(s))\<close> on a string: \<open>None\<close> when either call raises. \<^verbatim>\<open>int(n / 10)\<close>
  truncates the quotient towards zero; \<open>trunc_div10\<close> is that truncation, exact as long as
  \<open>n\<close> is an integer that a float holds exactly (beyond, the true and the modelled index
  are both far outside the column). \<^verbatim>\<open>float(None)\<close> raises, and \<^verbatim>\<open>except Exception\<close>
  catches whatever the \<^verbatim>\<open>try\<close> line raises.
\<close>

definition trunc_div10 :: "int \<Rightarrow> int" where
  "trunc_div10 n = (if 0 \<le> n then n div 10 else - ((- n) div 10))"

definition row_of_y :: "(string \<Rightarrow> int option) \<Rightarrow> string option \<Rightarrow> int option" where
  "row_of_y float_int y =
     (case y of None \<Rightarrow> None
      | Some s \<Rightarrow> (case float_int s of None \<Rightarrow> None | Some n \<Rightarrow> Some (trunc_div10 n)))"

text \<open>The \<^verbatim>\<open>except\<close> branch: \<^verbatim>\<open>len([r for r in rects if r == rect]) - 1\<close>.\<close>

definition fallback_row :: "node list \<Rightarrow> node \<Rightarrow> int" where
  "fallback_row rects rect = int (length (filter (\<lambda>r. node_eq r rect) rects)) - 1"

text \<open>
  The body of the loop over \<open>rects\<close>. \<open>str_int\<close> stands for Python's \<^verbatim>\<open>int(s)\<close> on a string,
  \<open>None\<close> when it raises \<^verbatim>\<open>ValueError\<close> (whose message is cut short here); that exception
  and the \<^verbatim>\<open>IndexError\<close> of \<^verbatim>\<open>col[yi] = ...\<close> are not caught.
\<close>

definition place_rect ::
  "(string \<Rightarrow> int option) \<Rightarrow> (string \<Rightarrow> int option) \<Rightarrow> node list \<Rightarrow> node \<Rightarrow> int list
     \<Rightarrow> py_error + int list" where
  "place_rect str_int float_int rects rect col =
     (let y = tag_get rect ''y'';
          yi = (case row_of_y float_int y of Some i \<Rightarrow> i | None \<Rightarrow> fallback_row rects rect)
      in case str_int (tag_get_default rect ''data-count'' (tag_get_default rect ''data-level'' ''0'')) of
           None \<Rightarrow> Inl (ValueError ''invalid literal for int()'')
         | Some count \<Rightarrow> py_set col yi (if count > 0 then 1 else 0))"

text \<open>A list comprehension whose element expression may raise.\<close>

fun comprehension :: "('a \<Rightarrow> py_error + 'b) \<Rightarrow> 'a list \<Rightarrow> py_error + 'b list" where
  "comprehension f [] = Inr []"
| "comprehension f (x # xs) =
     try_bind (f x) (\<lambda>y. try_bind (comprehension f xs) (\<lambda>ys. Inr (y # ys)))"

text \<open>
  The function, from line 20 on. \<open>response\<close> is what lines 17 to 20 produce: the
  exception that \<^verbatim>\<open>requests.get\<close> or \<^verbatim>\<open>raise_for_status\<close> raised, or the tree built from
  the body.
\<close>

definition fetch_contributions_matrix ::
  "(string \<Rightarrow> int option) \<Rightarrow> (string \<Rightarrow> int option) \<Rightarrow> py_error + node \<Rightarrow> py_error + matrix" where
  "fetch_contributions_matrix str_int float_int response =
     try_bind response (\<lambda>soup.
     case find_first soup ''svg'' of
       None \<Rightarrow> Inl (RuntimeError ''Could not find contributions SVG in response'')
     | Some svg \<Rightarrow>
         let weeks = find_all svg ''g''; rows = 7 in
         try_bind
           (for_loop (\<lambda>g columns.
                let rects = find_all g ''rect'' in
                if rects = [] then Inr columns
                else try_bind
                       (for_loop (place_rect str_int float_int rects) rects (replicate (nat rows) 0))
                       (\<lambda>col. Inr (columns @ [col])))
              weeks [])
           (\<lambda>columns.
              if columns = [] then Inl (RuntimeError ''No contribution columns parsed'')
              else
                let cols = int (length columns) in
                comprehension (\<lambda>r.
                  comprehension (\<lambda>c.
                    try_bind (py_get columns c) (\<lambda>column.
                    if r < int (length column) then py_get column r else Inr 0))
                    (py_range cols))
                  (py_range rows)))"

section \<open>AnimationRenderer: \<^verbatim>\<open>render_animated_svg\<close>\<close>

subsection \<open>Formatting numbers\<close>

text \<open>
  \<^verbatim>\<open>str(n)\<close> of an integer, as the f-strings insert it: the decimal digits, after a minus
  sign when \<open>n\<close> is negative.
\<close>

fun digits_of :: "nat \<Rightarrow> string" where
  "digits_of n =
     (if n < 10 then [''0123456789'' ! n]
      else digits_of (n div 10) @ [''0123456789'' ! (n mod 10)])"

declare digits_of.simps [simp del]

definition py_str :: "int \<Rightarrow> string" where
  "py_str n = (if n < 0 then CHR ''-'' # digits_of (nat (- n)) else digits_of (nat n))"

text \<open>
  A Python float is modelled by the rational number it holds (infinities, NaN and the
  negative zero have no model). \<^verbatim>\<open>f"{x:.3f}"\<close> writes the decimal with \<open>p\<close> places nearest
  to that number, a tie going to the even neighbour: \<open>fmt_fixed p x\<close>.
\<close>

definition round_half_even :: "rat \<Rightarrow> int" where
  "round_half_even x =
     (let f = \<lfloor>x\<rfloor>; d = x - of_int f in
      if d < 1 / 2 then f else if 1 / 2 < d then f + 1 else if even f then f else f + 1)"

definition zero_pad :: "nat \<Rightarrow> string \<Rightarrow> string" where
  "zero_pad p s = replicate (p - length s) CHR ''0'' @ s"

definition fmt_fixed :: "nat \<Rightarrow> rat \<Rightarrow> string" where
  "fmt_fixed p x =
     (let m = nat (round_half_even (\<bar>x\<bar> * 10 ^ p)) in
      (if x < 0 then ''-'' else '''') @ digits_of (m div 10 ^ p) @ ''.'' @ zero_pad p (digits_of (m mod 10 ^ p)))"

text \<open>\<^verbatim>\<open>s.rstrip(c)\<close> for one character, and \<^verbatim>\<open>sep.join(xs)\<close>.\<close>

definition py_rstrip :: "char \<Rightarrow> string \<Rightarrow> string" where
  "py_rstrip c s = rev (dropWhile (\<lambda>d. d = c) (rev s))"

fun py_join :: "string \<Rightarrow> string list \<Rightarrow> string" where
  "py_join sep [] = []"
| "py_join sep [x] = x"
| "py_join sep (x # y # ys) = x @ sep @ py_join sep (y # ys)"

subsection \<open>The document\<close>

text \<open>The closure \<^verbatim>\<open>rect(x, y, fill)\<close>; \<open>cell\<close> is the variable it captures.\<close>

definition rect :: "int \<Rightarrow> int \<Rightarrow> int \<Rightarrow> string \<Rightarrow> string" where
  \<open>rect cell x y fill =
     ''<rect x="'' @ py_str x @ ''" y="'' @ py_str y @ ''" width="'' @ py_str cell
     @ ''" height="'' @ py_str cell @ ''" rx="2" ry="2" fill="'' @ fill @ ''"/>''\<close>

text \<open>The background: one rectangle for every cell, row by row.\<close>

definition background :: "int \<Rightarrow> int \<Rightarrow> int \<Rightarrow> int \<Rightarrow> string \<Rightarrow> string list" where
  "background rows cols cell gap dead_color =
     concat (map (\<lambda>r. map (\<lambda>c. rect cell (c * (cell + gap)) (r * (cell + gap)) dead_color)
                          (py_range cols)) (py_range rows))"

text \<open>
  \<^verbatim>\<open>key_times\<close> and \<^verbatim>\<open>key_times_str\<close>. \<open>fl\<close> rounds a rational to the nearest float, as the
  division \<^verbatim>\<open>i / len(frames)\<close> and the product \<^verbatim>\<open>frame_duration * len(frames)\<close> do; the
  list of frames is not empty where these are computed.
\<close>

definition key_times :: "(rat \<Rightarrow> rat) \<Rightarrow> nat \<Rightarrow> rat list" where
  "key_times fl n = map (\<lambda>i. fl (of_int i / of_nat n)) (py_range (int n + 1))"

definition fmt_key_time :: "rat \<Rightarrow> string" where
  "fmt_key_time t =
     (if t \<noteq> 0 \<and> t \<noteq> 1 then py_rstrip CHR ''.'' (py_rstrip CHR ''0'' (fmt_fixed 6 t))
      else if t = 0 then ''0'' else ''1'')"

definition key_times_str :: "(rat \<Rightarrow> rat) \<Rightarrow> nat \<Rightarrow> string" where
  "key_times_str fl n = py_join '';'' (map fmt_key_time (key_times fl n))"

text \<open>The cells of one frame: \<^verbatim>\<open>frame[r][c]\<close> raises where the frame is too small.\<close>

definition frame_cells ::
  "int \<Rightarrow> int \<Rightarrow> int \<Rightarrow> int \<Rightarrow> string \<Rightarrow> matrix \<Rightarrow> py_error + string list" where
  "frame_cells rows cols cell gap alive_color frame =
     for_loop (\<lambda>r. for_loop (\<lambda>c g_cells.
         try_bind (py_get frame r) (\<lambda>row.
         try_bind (py_get row c) (\<lambda>v.
           if v = 1
           then Inr (g_cells @ [rect cell (c * (cell + gap)) (r * (cell + gap)) alive_color])
           else Inr g_cells))) (py_range cols)) (py_range rows) []"

definition opacity_values :: "nat \<Rightarrow> nat \<Rightarrow> string list" where
  "opacity_values n k = map (\<lambda>i. if i = int k then ''1'' else ''0'') (py_range (int n + 1))"

text \<open>The group of frame \<open>k\<close>, given its cells.\<close>

definition frame_group :: "nat \<Rightarrow> string list \<Rightarrow> string \<Rightarrow> string \<Rightarrow> string \<Rightarrow> string" where
  \<open>frame_group k g_cells dur kts values_str =
     ''<g id="f'' @ py_str (int k) @ ''" opacity="'' @ (if k = 0 then ''1'' else ''0'') @ ''">''
     @ concat g_cells
     @ ''<animate attributeName="opacity" dur="'' @ dur @ ''s" repeatCount="indefinite" ''
     @ ''calcMode="discrete" keyTimes="'' @ kts @ ''" values="'' @ values_str @ ''"/></g>''\<close>

text \<open>
  The list \<^verbatim>\<open>parts\<close> for a list of frames that is not empty; \<^verbatim>\<open>enumerate(frames)\<close> is the
  list of the frames with their positions.
\<close>

definition render_parts ::
  "(rat \<Rightarrow> rat) \<Rightarrow> matrix list \<Rightarrow> int \<Rightarrow> int \<Rightarrow> string \<Rightarrow> string \<Rightarrow> rat \<Rightarrow> py_error + string list" where
  \<open>render_parts fl frames cell gap alive_color dead_color frame_duration =
     try_bind (py_get frames 0) (\<lambda>frame0.
     let rows = int (length frame0) in
     try_bind (if rows \<noteq> 0
               then try_bind (py_get frame0 0) (\<lambda>row0. Inr (int (length row0)))
               else Inr 0) (\<lambda>cols.
     let total_dur = fl (frame_duration * of_nat (length frames));
         width = cols * (cell + gap) - gap;
         height = rows * (cell + gap) - gap;
         parts = [''<?xml version="1.0" encoding="UTF-8"?>'',
                  ''<svg xmlns="http://www.w3.org/2000/svg" viewBox="0 0 '' @ py_str width @ '' ''
                  @ py_str height @ ''" width="'' @ py_str width @ ''" height="'' @ py_str height
                  @ ''">'',
                  ''<g id="bg">'' @ concat (background rows cols cell gap dead_color) @ ''</g>''];
         kts = key_times_str fl (length frames)
     in
     try_bind
       (for_loop (\<lambda>(k, frame) parts.
            try_bind (frame_cells rows cols cell gap alive_color frame) (\<lambda>g_cells.
            Inr (parts @ [frame_group k g_cells (fmt_fixed 3 total_dur) kts
                            (py_join '';'' (opacity_values (length frames) k))])))
          (zip [0..<length frames] frames) parts)
       (\<lambda>parts. Inr (parts @ [''</svg>'']))))\<close>

subsection \<open>Writing the file\<close>

text \<open>
  \<^verbatim>\<open>os.path.dirname\<close> cuts the path after its last slash and drops the trailing slashes of
  what is left, unless nothing else is left.
\<close>

definition py_dirname :: "string \<Rightarrow> string" where
  "py_dirname p =
     (let head = rev (dropWhile (\<lambda>c. c \<noteq> CHR ''/'') (rev p)) in
      if head \<noteq> [] \<and> head \<noteq> replicate (length head) CHR ''/''
      then py_rstrip CHR ''/'' head else head)"

text \<open>
  Whether a directory can be made and a file written is decided by the operating system,
  from a state that the script does not see: the paths that are files or directories,
  the permissions, the space left. The calls of the two scripts to the operating system
  are therefore parameters, over a type \<open>'w\<close> of states of the world:

    \<^item> \<open>makedirs os d\<close> is \<^verbatim>\<open>os.makedirs(d, exist_ok=True)\<close>;
    \<^item> \<open>write_text os p s\<close> is \<^verbatim>\<open>with open(p, "w", encoding="utf-8") as f: f.write(s)\<close>;
    \<^item> \<open>read_text os p\<close> is the text that \<^verbatim>\<open>ET.parse(p)\<close> finds in the file \<open>p\<close>, \<open>None\<close>
      when opening or reading the file raises.

  A call returns the exception it raises, or \<open>()\<close>, and the state it leaves: a call that
  raises may have changed the world (the directories made so far, a file created or
  emptied before the write failed). A string stands for a text and for its bytes at once,
  which agree for ASCII text.
\<close>

record 'w os_calls =
  makedirs :: "string \<Rightarrow> 'w \<Rightarrow> (py_error + unit) \<times> 'w"
  write_text :: "string \<Rightarrow> string \<Rightarrow> 'w \<Rightarrow> (py_error + unit) \<times> 'w"
  read_text :: "string \<Rightarrow> 'w \<Rightarrow> string option"

definition render_animated_svg ::
  "'w os_calls \<Rightarrow> (rat \<Rightarrow> rat) \<Rightarrow> matrix list \<Rightarrow> int \<Rightarrow> int \<Rightarrow> string \<Rightarrow> string \<Rightarrow> rat \<Rightarrow> string \<Rightarrow> 'w
     \<Rightarrow> (py_error + unit) \<times> 'w" where
  "render_animated_svg os fl frames cell gap alive_color dead_color frame_duration out_path w =
     (if frames = [] then (Inl (ValueError ''No frames to render''), w)
      else
        case render_parts fl frames cell gap alive_color dead_color frame_duration of
          Inl e \<Rightarrow> (Inl e, w)
        | Inr parts \<Rightarrow>
            (case makedirs os (py_dirname out_path) w of
               (Inl e, w1) \<Rightarrow> (Inl e, w1)
             | (Inr u, w1) \<Rightarrow> write_text os out_path (py_join [CHR 0x0A] parts) w1))"

subsection \<open>Notions the proofs about the renderer use\<close>

text \<open>
  \<open>cells_inv\<close> is the invariant of the loops that collect the cells of a frame: every
  entry is a rectangle in the given colour. \<open>cells_of\<close> names the list that
  \<open>frame_cells\<close> returns.
\<close>

definition cells_inv :: "int \<Rightarrow> string \<Rightarrow> string list \<Rightarrow> bool" where
  "cells_inv cell fill g_cells = (\<forall>s \<in> set g_cells. \<exists>x y. s = rect cell x y fill)"

definition cells_of :: "int \<Rightarrow> int \<Rightarrow> int \<Rightarrow> int \<Rightarrow> string \<Rightarrow> matrix \<Rightarrow> string list" where
  "cells_of rows cols cell gap alive_color frame =
     (case frame_cells rows cols cell gap alive_color frame of Inl e \<Rightarrow> [] | Inr g_cells \<Rightarrow> g_cells)"

section \<open>The validator on a file: a model of the parser\<close>

text \<open>
  \<^verbatim>\<open>ET.parse\<close> is the XML parser of Python's standard library. Its model here reads a
  fragment of XML 1.0 that contains the documents of the renderer: the declaration that
  the renderer writes (or none), then one root element; start tags, end tags and
  empty-element tags; names of ASCII letters, digits, \<^verbatim>\<open>_\<close>, \<^verbatim>\<open>-\<close> and \<^verbatim>\<open>.\<close>; attribute values
  in double quotes, of printable ASCII characters other than \<^verbatim>\<open><\<close>, \<^verbatim>\<open>&\<close> and the quote; white
  space between tags; the namespace of SVG as the only default namespace. The model
  has three answers:

    \<^item> \<open>Parsed e\<close>: the text is in the fragment and well-formed, and \<open>e\<close> is the tree that
      the parser builds, without the text that the elements hold;
    \<^item> \<open>NotWellFormed\<close>: the text is in the fragment up to a point where no well-formed
      document can go on (a \<^verbatim>\<open><\<close> inside an attribute value, an attribute given twice, an
      end tag that does not match, the end of the text before the end of the root), so
      that the parser raises;
    \<^item> \<open>Unmodelled\<close>: the text leaves the fragment (references, comments, CDATA, DOCTYPE,
      processing instructions, prefixed names, other namespaces, single quotes,
      character data, bytes outside ASCII), and the model does not say what the parser
      does.
\<close>

datatype parse_result = Parsed element | NotWellFormed | Unmodelled

definition name_start :: "char \<Rightarrow> bool" where
  "name_start c = (c \<in> set ''abcdefghijklmnopqrstuvwxyzABCDEFGHIJKLMNOPQRSTUVWXYZ_'')"

definition name_char :: "char \<Rightarrow> bool" where
  "name_char c = (name_start c \<or> c \<in> set ''0123456789-.'')"

definition is_space :: "char \<Rightarrow> bool" where
  "is_space c = (c = CHR '' '' \<or> c = CHR 0x0A \<or> c = CHR 0x09 \<or> c = CHR 0x0D)"

definition value_char :: "char \<Rightarrow> bool" where
  \<open>value_char c =
     (32 \<le> (of_char c :: nat) \<and> (of_char c :: nat) \<le> 126
      \<and> c \<noteq> CHR ''<'' \<and> c \<noteq> CHR ''&'' \<and> c \<noteq> CHR 0x22)\<close>

text \<open>
  The parser is a machine that reads one character at a time. Its state is the mode,
  the stack of the open elements (innermost first, each with its tag, its attributes and
  the children closed so far) and the root once it is closed. The mode \<open>Failed\<close> is
  entered where the text stops being well-formed, and never left; there is no step
  (\<open>None\<close>) where the text leaves the fragment.
\<close>

type_synonym open_element = "string \<times> (string \<times> string) list \<times> element list"

datatype mode =
    Content
  | Lt
  | STagName string
  | InTag string "(string \<times> string) list"
  | AttrName string "(string \<times> string) list" string
  | AfterAttrName string "(string \<times> string) list" string
  | BeforeValue string "(string \<times> string) list" string
  | InValue string "(string \<times> string) list" string string
  | AfterValue string "(string \<times> string) list"
  | EmptyClose string "(string \<times> string) list"
  | ETagStart
  | ETagName string
  | ETagSpace string
  | Failed

type_synonym xstate = "mode \<times> open_element list \<times> element option"

text \<open>A closed element becomes the last child of the innermost open element, or the root.\<close>

definition add_element :: "element \<Rightarrow> open_element list \<Rightarrow> element option \<Rightarrow> xstate option" where
  "add_element e stack root_done =
     (case stack of
        [] \<Rightarrow> (if root_done = None then Some (Content, [], Some e) else None)
      | (t, a, cs) # rest \<Rightarrow> Some (Content, (t, a, cs @ [e]) # rest, root_done))"

definition close_element :: "string \<Rightarrow> open_element list \<Rightarrow> element option \<Rightarrow> xstate option" where
  "close_element nm stack root_done =
     (case stack of
        [] \<Rightarrow> None
      | (t, a, cs) # rest \<Rightarrow>
          if t = nm then add_element (Element t a cs) rest root_done
          else Some (Failed, stack, root_done))"

definition svg_namespace :: string where
  "svg_namespace = ''http://www.w3.org/2000/svg''"

fun xstep :: "xstate \<Rightarrow> char \<Rightarrow> xstate option" where
  "xstep (Content, stack, rd) c =
     (if c = CHR ''<'' then Some (Lt, stack, rd)
      else if is_space c then Some (Content, stack, rd)
      else None)"
| "xstep (Lt, stack, rd) c =
     (if name_start c then (if stack = [] \<and> rd \<noteq> None then None else Some (STagName [c], stack, rd))
      else if c = CHR ''/'' then (if stack = [] then None else Some (ETagStart, stack, rd))
      else None)"
| "xstep (STagName nm, stack, rd) c =
     (if name_char c then Some (STagName (nm @ [c]), stack, rd)
      else if is_space c then Some (InTag nm [], stack, rd)
      else if c = CHR ''/'' then Some (EmptyClose nm [], stack, rd)
      else if c = CHR ''>'' then Some (Content, (nm, [], []) # stack, rd)
      else None)"
| "xstep (InTag nm ats, stack, rd) c =
     (if name_start c then Some (AttrName nm ats [c], stack, rd)
      else if is_space c then Some (InTag nm ats, stack, rd)
      else if c = CHR ''/'' then Some (EmptyClose nm ats, stack, rd)
      else if c = CHR ''>'' then Some (Content, (nm, ats, []) # stack, rd)
      else None)"
| "xstep (AttrName nm ats an, stack, rd) c =
     (if name_char c then Some (AttrName nm ats (an @ [c]), stack, rd)
      else if is_space c then Some (AfterAttrName nm ats an, stack, rd)
      else if c = CHR ''='' then
        (if an \<in> set (map fst ats) then Some (Failed, stack, rd)
         else Some (BeforeValue nm ats an, stack, rd))
      else None)"
| "xstep (AfterAttrName nm ats an, stack, rd) c =
     (if is_space c then Some (AfterAttrName nm ats an, stack, rd)
      else if c = CHR ''='' then
        (if an \<in> set (map fst ats) then Some (Failed, stack, rd)
         else Some (BeforeValue nm ats an, stack, rd))
      else None)"
| \<open>xstep (BeforeValue nm ats an, stack, rd) c =
     (if is_space c then Some (BeforeValue nm ats an, stack, rd)
      else if c = CHR 0x22 then Some (InValue nm ats an [], stack, rd)
      else None)\<close>
| \<open>xstep (InValue nm ats an v, stack, rd) c =
     (if value_char c then Some (InValue nm ats an (v @ [c]), stack, rd)
      else if c = CHR 0x22 then
        (if an = ''xmlns'' \<and> v \<noteq> svg_namespace then None
         else Some (AfterValue nm (ats @ [(an, v)]), stack, rd))
      else if c = CHR ''<'' then Some (Failed, stack, rd)
      else None)\<close>
| "xstep (AfterValue nm ats, stack, rd) c =
     (if is_space c then Some (InTag nm ats, stack, rd)
      else if c = CHR ''/'' then Some (EmptyClose nm ats, stack, rd)
      else if c = CHR ''>'' then Some (Content, (nm, ats, []) # stack, rd)
      else None)"
| "xstep (EmptyClose nm ats, stack, rd) c =
     (if c = CHR ''>'' then add_element (Element nm ats []) stack rd else None)"
| "xstep (ETagStart, stack, rd) c =
     (if name_start c then Some (ETagName [c], stack, rd) else None)"
| "xstep (ETagName nm, stack, rd) c =
     (if name_char c then Some (ETagName (nm @ [c]), stack, rd)
      else if is_space c then Some (ETagSpace nm, stack, rd)
      else if c = CHR ''>'' then close_element nm stack rd
      else None)"
| "xstep (ETagSpace nm, stack, rd) c =
     (if is_space c then Some (ETagSpace nm, stack, rd)
      else if c = CHR ''>'' then close_element nm stack rd
      else None)"
| "xstep (Failed, stack, rd) c = Some (Failed, stack, rd)"

fun xrun :: "xstate \<Rightarrow> string \<Rightarrow> xstate option" where
  "xrun st [] = Some st"
| "xrun st (c # cs) = (case xstep st c of None \<Rightarrow> None | Some st' \<Rightarrow> xrun st' cs)"

text \<open>
  The parser reports a name in a namespace as \<^verbatim>\<open>{uri}local\<close> and keeps the declaration
  \<^verbatim>\<open>xmlns="uri"\<close> out of the attributes; the declaration holds for the element and its
  descendants, and \<^verbatim>\<open>xmlns=""\<close> undoes it. Attribute names without a prefix are in no
  namespace. (The machine lets no other declaration through than the one of the SVG
  namespace: the parser refuses some names of namespaces, such as one with a \<^verbatim>\<open>}\<close>.)
\<close>

fun qualify :: "string option \<Rightarrow> element \<Rightarrow> element" where
  "qualify ns (Element t a cs) =
     (let ns' = (case map_of a ''xmlns'' of
                   None \<Rightarrow> ns
                 | Some uri \<Rightarrow> if uri = [] then None else Some uri)
      in Element (case ns' of None \<Rightarrow> t | Some uri \<Rightarrow> ''{'' @ uri @ ''}'' @ t)
           (filter (\<lambda>kv. fst kv \<noteq> ''xmlns'') a)
           (map (qualify ns') cs))"

definition xml_declaration :: string where
  \<open>xml_declaration = ''<?xml version="1.0" encoding="UTF-8"?>''\<close>

definition xml_parse :: "string \<Rightarrow> parse_result" where
  "xml_parse txt =
     (let body = (if prefix xml_declaration txt then drop (length xml_declaration) txt else txt)
      in case xrun (Content, [], None) body of
           None \<Rightarrow> Unmodelled
         | Some (Content, [], Some e) \<Rightarrow> Parsed (qualify None e)
         | Some st \<Rightarrow> NotWellFormed)"

text \<open>
  \<^verbatim>\<open>main(path)\<close> on a file: \<^verbatim>\<open>ET.parse\<close> raises when the file cannot be read or when its
  text is not well-formed, and \<open>main\<close> returns 2 then. \<open>validate_text\<close> is \<open>main\<close> on a file
  that holds the given text; the exit code is unknown (\<open>None\<close>) where the model of the
  parser has no answer.
\<close>

definition validate_text :: "string \<Rightarrow> int option" where
  "validate_text txt =
     (case xml_parse txt of
        Parsed e \<Rightarrow> Some (validate_main (Some e))
      | NotWellFormed \<Rightarrow> Some (validate_main None)
      | Unmodelled \<Rightarrow> None)"

definition validate_file :: "'w os_calls \<Rightarrow> 'w \<Rightarrow> string \<Rightarrow> int option" where
  "validate_file os w path =
     (case read_text os path w of
        None \<Rightarrow> Some (validate_main None)
      | Some txt \<Rightarrow> validate_text txt)"
subsection \<open>The tags that the renderer writes\<close>

text \<open>
  The shape of a tag as the f-strings of the renderer put it together: the name, then
  every attribute after one space, as \<^verbatim>\<open>key="value"\<close>. \<open>valid_name\<close>, \<open>safe_value\<close> and
  \<open>ok_attrs\<close> say when the model of the parser reads such a tag back.
\<close>

definition valid_name :: "string \<Rightarrow> bool" where
  "valid_name nm = (case nm of [] \<Rightarrow> False | c # cs \<Rightarrow> name_start c \<and> list_all name_char cs)"

definition safe_value :: "string \<Rightarrow> bool" where
  "safe_value v = list_all value_char v"

definition ok_attrs :: "(string \<times> string) list \<Rightarrow> bool" where
  "ok_attrs ats =
     (distinct (map fst ats)
      \<and> list_all (\<lambda>kv. valid_name (fst kv) \<and> safe_value (snd kv)
                       \<and> (fst kv = ''xmlns'' \<longrightarrow> snd kv = svg_namespace)) ats)"

definition attr_markup :: "string \<times> string \<Rightarrow> string" where
  \<open>attr_markup kv = '' '' @ fst kv @ ''="'' @ snd kv @ ''"''\<close>

definition start_tag :: "string \<Rightarrow> (string \<times> string) list \<Rightarrow> string" where
  "start_tag nm ats = ''<'' @ nm @ concat (map attr_markup ats) @ ''>''"

definition empty_tag :: "string \<Rightarrow> (string \<times> string) list \<Rightarrow> string" where
  "empty_tag nm ats = ''<'' @ nm @ concat (map attr_markup ats) @ ''/>''"

definition end_tag :: "string \<Rightarrow> string" where
  "end_tag nm = ''</'' @ nm @ ''>''"

text \<open>A list of strings that are empty-element tags the parser reads back.\<close>

definition empty_tags :: "string list \<Rightarrow> bool" where
  "empty_tags ss = list_all (\<lambda>s. \<exists>nm ats. s = empty_tag nm ats \<and> valid_name nm \<and> ok_attrs ats) ss"

text \<open>
  A group as the renderer writes one for a frame: a \<^verbatim>\<open>g\<close> whose last child is an
  \<^verbatim>\<open>animate\<close>, neither with a namespace declaration of its own.
\<close>

definition animated_group :: "element \<Rightarrow> bool" where
  "animated_group e =
     (\<exists>ats kids ats'. e = Element ''g'' ats (kids @ [Element ''animate'' ats' []])
        \<and> map_of ats ''xmlns'' = None \<and> map_of ats' ''xmlns'' = None)"

definition group_markup :: "string \<Rightarrow> bool" where
  "group_markup s =
     (\<exists>ats cells ats'. s = start_tag ''g'' ats @ concat cells @ empty_tag ''animate'' ats' @ end_tag ''g''
        \<and> ok_attrs ats \<and> ok_attrs ats' \<and> empty_tags cells
        \<and> map_of ats ''xmlns'' = None \<and> map_of ats' ''xmlns'' = None)"

section \<open>Notions for the claims about the renderer\<close>

subsection \<open>Reading a decimal numeral\<close>

text \<open>
  The value of a decimal numeral, as a reader of the document takes it: an optional minus
  sign, digits, and optionally a point and more digits. \<open>decimal_value\<close> is the
  specification's side of the numbers that the renderer prints; it shares nothing with
  the functions that print them.
\<close>

definition digit_val :: "char \<Rightarrow> nat option" where
  "digit_val c = map_of (zip ''0123456789'' [0, 1, 2, 3, 4, 5, 6, 7, 8, 9]) c"

fun digits_val :: "string \<Rightarrow> nat option" where
  "digits_val [] = Some 0"
| "digits_val (c # cs) =
     (case digit_val c of
        None \<Rightarrow> None
      | Some d \<Rightarrow> map_option (\<lambda>v. d * 10 ^ length cs + v) (digits_val cs))"

definition decimal_value :: "string \<Rightarrow> rat option" where
  "decimal_value s =
     (let neg = (take 1 s = ''-'');
          body = (if neg then drop 1 s else s);
          ip = takeWhile (\<lambda>c. c \<noteq> CHR ''.'') body;
          fp = drop (length ip + 1) body
      in if ip = [] then None
         else case (digits_val ip, digits_val fp) of
                (Some a, Some b) \<Rightarrow>
                  Some ((if neg then - 1 else 1) * (of_nat a + of_nat b / 10 ^ length fp))
              | _ \<Rightarrow> None)"


subsection \<open>The cells of a frame\<close>


section \<open>LifeEngine: proofs\<close>

subsection \<open>Loops that never raise\<close>

lemma for_loop_inv:
  assumes "I s" and "\<And>x s. x \<in> set xs \<Longrightarrow> I s \<Longrightarrow> body x s = Inr (g x s) \<and> I (g x s)"
  shows "for_loop body xs s = Inr (fold g xs s) \<and> I (fold g xs s)"
  using assms by (induction xs arbitrary: s) (auto simp: try_bind_def)

lemma get_cell:
  assumes "rectangular m" "0 \<le> r" "r < int (length m)" "0 \<le> c" "c < int (ncols m)"
  shows "try_bind (py_get m r) (\<lambda>row. try_bind (py_get row c) f) = f (m ! nat r ! nat c)"
proof -
  have "m ! nat r \<in> set m" using assms by simp
  then have "length (m ! nat r) = ncols m" using assms(1) by (simp add: rectangular_def)
  then show ?thesis using assms by (simp add: py_get_def py_index_def try_bind_def)
qed

lemma neighbor_visit:
  assumes "rectangular m"
  shows "(if 0 \<le> rr \<and> rr < int (length m) \<and> 0 \<le> cc \<and> cc < int (ncols m)
           then try_bind (py_get m rr) (\<lambda>row. try_bind (py_get row cc) (\<lambda>v. Inr (s + v)))
           else Inr s) = Inr (s + cell_at m rr cc)"
  using get_cell [OF assms, of rr cc "\<lambda>v. Inr (s + v)"] by (simp add: cell_at_def)

lemma neighbors_rect:
  assumes "rectangular m"
  shows "neighbors m (int (length m)) (int (ncols m)) r c = Inr (moore_count m r c)"
  by (simp add: neighbors_def Let_def neighbor_visit [OF assms] try_bind_def moore_count_def)

lemma try_bind_Inr: "try_bind (Inr x) f = f x"
  by (simp add: try_bind_def)

lemma try_bind_Inl: "try_bind (Inl e) f = Inl e"
  by (simp add: try_bind_def)

lemma set_cell_ok:
  assumes "r < length nxt" "c < length (nxt ! r)"
  shows "set_cell nxt (int r) (int c) v = Inr (nxt[r := (nxt ! r)[c := v]])"
  using assms by (simp add: set_cell_def py_get_def py_index_def py_set_def try_bind_def)

lemma fill_next:
  "k < length xs \<Longrightarrow> (map v [0..<k] @ drop k xs)[k := a] = map v [0..<k] @ a # drop (Suc k) xs"
  by (simp add: list_update_append Cons_nth_drop_Suc [symmetric])

lemma py_range_mem: "c \<in> set (py_range (int n)) \<Longrightarrow> \<exists>j<n. c = int j"
  by (auto simp: py_range_def)

lemma fill_row:
  assumes "r < length nxt" "k \<le> length (nxt ! r)"
  shows "fold (\<lambda>c nxt. nxt[r := (nxt ! r)[c := v c]]) [0..<k] nxt
         = nxt[r := map v [0..<k] @ drop k (nxt ! r)]"
  using assms
proof (induction k)
  case 0
  then show ?case by simp
next
  case (Suc k)
  then show ?case by (simp add: fill_next)
qed

lemma fill_rows:
  assumes "k \<le> length nxt"
  shows "fold (\<lambda>r nxt. nxt[r := w r]) [0..<k] nxt = map w [0..<k] @ drop k nxt"
  using assms
proof (induction k)
  case 0
  then show ?case by simp
next
  case (Suc k)
  then show ?case by (simp add: fill_next)
qed


lemma inner_loop:
  assumes rect: "rectangular m" and r: "r < length m" and sh: "shaped (length m) (ncols m) nxt"
  shows "for_loop (\<lambda>c nxt.
          try_bind (neighbors m (int (length m)) (int (ncols m)) (int r) c) (\<lambda>n.
          try_bind (py_get m (int r)) (\<lambda>row.
          try_bind (py_get row c) (\<lambda>v.
            if v = 1 then set_cell nxt (int r) c (if n = 2 \<or> n = 3 then 1 else 0)
            else set_cell nxt (int r) c (if n = 3 then 1 else 0))))) (py_range (int (ncols m))) nxt
        = Inr (nxt[r := map (next_cell m r) [0..<ncols m]])"
proof -
  let ?body = "\<lambda>c nxt.
          try_bind (neighbors m (int (length m)) (int (ncols m)) (int r) c) (\<lambda>n.
          try_bind (py_get m (int r)) (\<lambda>row.
          try_bind (py_get row c) (\<lambda>v.
            if v = 1 then set_cell nxt (int r) c (if n = 2 \<or> n = 3 then 1 else 0)
            else set_cell nxt (int r) c (if n = 3 then 1 else 0))))"
  let ?g = "\<lambda>c nxt. nxt[r := (nxt ! r)[nat c := next_cell m r (nat c)]]"
  have step: "?body c s = Inr (?g c s) \<and> shaped (length m) (ncols m) (?g c s)"
    if cmem: "c \<in> set (py_range (int (ncols m)))" and shs: "shaped (length m) (ncols m) s" for c s
  proof -
    obtain j where j: "c = int j" "j < ncols m" using py_range_mem [OF cmem] by blast
    have len: "r < length s" "j < length (s ! r)"
      using shs r j by (auto simp: shaped_def)
    have gc: "try_bind (py_get m (int r)) (\<lambda>row. try_bind (py_get row (int j)) f) = f (m ! r ! j)" for f
      using get_cell [OF rect, of "int r" "int j" f] r j by simp
    have "?body c s = set_cell s (int r) (int j) (next_cell m r j)"
      unfolding j(1) by (simp add: neighbors_rect [OF rect] try_bind_Inr gc next_cell_def Let_def)
    moreover have "shaped (length m) (ncols m) (?g c s)"
      using shs len j by (auto simp: shaped_def dest!: set_update_subset_insert [THEN subsetD])
    ultimately show ?thesis using len j by (simp add: set_cell_ok)
  qed
  have "for_loop ?body (py_range (int (ncols m))) nxt = Inr (fold ?g (py_range (int (ncols m))) nxt)"
    using for_loop_inv [of "shaped (length m) (ncols m)" nxt "py_range (int (ncols m))" ?body ?g] sh step
    by blast
  also have "fold ?g (py_range (int (ncols m))) nxt
             = fold (\<lambda>c nxt. nxt[r := (nxt ! r)[c := next_cell m r c]]) [0..<ncols m] nxt"
    by (simp add: py_range_def fold_map comp_def)
  also have "\<dots> = nxt[r := map (next_cell m r) [0..<ncols m] @ drop (ncols m) (nxt ! r)]"
    using sh r by (intro fill_row) (auto simp: shaped_def)
  also have "drop (ncols m) (nxt ! r) = []"
    using sh r by (auto simp: shaped_def)
  finally show ?thesis by simp
qed

lemma life_step_rect:
  assumes rect: "rectangular m"
  shows "life_step m = Inr (next_gen m)"
proof -
  let ?rows = "int (length m)" and ?cols = "int (ncols m)"
  let ?inner = "\<lambda>r. for_loop (\<lambda>c nxt.
          try_bind (neighbors m ?rows ?cols r c) (\<lambda>n.
          try_bind (py_get m r) (\<lambda>row.
          try_bind (py_get row c) (\<lambda>v.
            if v = 1 then set_cell nxt r c (if n = 2 \<or> n = 3 then 1 else 0)
            else set_cell nxt r c (if n = 3 then 1 else 0))))) (py_range ?cols)"
  let ?g = "\<lambda>r nxt. nxt[nat r := map (next_cell m (nat r)) [0..<ncols m]]"
  let ?nxt = "replicate (length m) (replicate (ncols m) (0::int))"
  have cols: "(if ?rows \<noteq> 0 then try_bind (py_get m 0) (\<lambda>row0. Inr (int (length row0))) else Inr 0)
              = Inr ?cols"
    by (cases m) (simp_all add: py_get_def py_index_def try_bind_def ncols_def)
  have step: "?inner r s = Inr (?g r s) \<and> shaped (length m) (ncols m) (?g r s)"
    if rmem: "r \<in> set (py_range ?rows)" and shs: "shaped (length m) (ncols m) s" for r s
  proof -
    obtain i where i: "r = int i" "i < length m" using py_range_mem [OF rmem] by blast
    have "shaped (length m) (ncols m) (?g r s)"
      using shs by (auto simp: shaped_def dest!: set_update_subset_insert [THEN subsetD])
    then show ?thesis unfolding i(1) using inner_loop [OF rect i(2) shs] by simp
  qed
  have sh0: "shaped (length m) (ncols m) ?nxt" by (simp add: shaped_def)
  have "life_step m = for_loop ?inner (py_range ?rows) ?nxt"
    unfolding life_step_def Let_def cols by (simp add: try_bind_def)
  also have "\<dots> = Inr (fold ?g (py_range ?rows) ?nxt)"
    using for_loop_inv [of "shaped (length m) (ncols m)" ?nxt "py_range ?rows" ?inner ?g] sh0 step
    by blast
  also have "fold ?g (py_range ?rows) ?nxt
             = fold (\<lambda>r nxt. nxt[r := map (next_cell m r) [0..<ncols m]]) [0..<length m] ?nxt"
    by (simp add: py_range_def fold_map comp_def)
  also have "\<dots> = map (\<lambda>r. map (next_cell m r) [0..<ncols m]) [0..<length m] @ drop (length m) ?nxt"
    by (intro fill_rows) simp
  finally show ?thesis by (simp add: next_gen_def)
qed

lemma next_gen_length: "length (next_gen m) = length m"
  by (simp add: next_gen_def)

lemma next_gen_ncols: "ncols (next_gen m) = ncols m"
  by (cases m) (simp_all add: next_gen_def ncols_def upt_conv_Cons del: upt_Suc)

lemma next_gen_rect: "rectangular (next_gen m)"
  unfolding rectangular_def next_gen_ncols by (auto simp: next_gen_def)

lemma next_gen_nth: "r < length m \<Longrightarrow> c < ncols m \<Longrightarrow> next_gen m ! r ! c = next_cell m r c"
  by (simp add: next_gen_def)

lemma next_gen_row: "r < length m \<Longrightarrow> length (next_gen m ! r) = ncols m"
  by (simp add: next_gen_def)

lemma funpow_rect: "rectangular m \<Longrightarrow> rectangular ((next_gen ^^ i) m)"
  by (induction i) (simp_all add: next_gen_rect)

lemma step_n_rect: "rectangular m \<Longrightarrow> step_n i m = Inr ((next_gen ^^ i) m)"
  by (induction i) (simp_all add: try_bind_Inr life_step_rect funpow_rect)

lemma for_loop_append:
  "for_loop body (xs @ ys) s = try_bind (for_loop body xs s) (for_loop body ys)"
  by (induction xs arbitrary: s) (auto simp: try_bind_def split: sum.splits)

lemma simulate_loop:
  assumes "rectangular m"
  shows "for_loop (\<lambda>_ (cur, frames).
            try_bind (life_step cur) (\<lambda>cur'. Inr (cur', frames @ [cur'])))
          (map int [0..<n]) (m, [m])
         = Inr ((next_gen ^^ n) m, map (\<lambda>i. (next_gen ^^ i) m) [0..<Suc n])"
proof (induction n)
  case 0
  then show ?case by simp
next
  case (Suc n)
  have "life_step ((next_gen ^^ n) m) = Inr ((next_gen ^^ Suc n) m)"
    using life_step_rect [OF funpow_rect [OF assms, of n]] by simp
  then show ?case
    using Suc by (simp add: for_loop_append try_bind_Inr)
qed

lemma simulate_rect:
  assumes "rectangular m"
  shows "simulate m steps = Inr (map (\<lambda>i. (next_gen ^^ i) m) [0..<Suc (nat (steps - 1))])"
  by (simp add: simulate_def py_range_def simulate_loop [OF assms] try_bind_Inr)

subsection \<open>The claims about the engine\<close>

text \<open>
  Claim C1. For a rectangular binary matrix \<open>m\<close>, \<^verbatim>\<open>life_step\<close> returns (it raises nothing)
  a matrix of the same shape whose cell \<open>(r, c)\<close> is 1 exactly when the input cell is 1 and
  its neighbour count is 2 or 3, or the input cell is 0 and the count is 3. The count
  \<open>moore_count\<close> adds the eight adjacent cells, a position outside the matrix counting 0.
\<close>

theorem life_step_conway:
  assumes "rectangular m" and "binary m"
  shows "\<exists>m'. life_step m = Inr m' \<and> length m' = length m \<and>
           (\<forall>r<length m. length (m' ! r) = ncols m \<and>
              (\<forall>c<ncols m.
                 (m' ! r ! c = 1) =
                   (m ! r ! c = 1 \<and> (moore_count m (int r) (int c) = 2 \<or> moore_count m (int r) (int c) = 3)
                    \<or> m ! r ! c = 0 \<and> moore_count m (int r) (int c) = 3)))"
proof -
  have cell: "m ! r ! c = 0 \<or> m ! r ! c = 1" if "r < length m" "c < ncols m" for r c
  proof -
    have "m ! r \<in> set m" using that by simp
    moreover from this have "length (m ! r) = ncols m" using assms(1) by (simp add: rectangular_def)
    ultimately show ?thesis using assms(2) that unfolding binary_def by (metis nth_mem)
  qed
  have "(next_gen m ! r ! c = 1) =
          (m ! r ! c = 1 \<and> (moore_count m (int r) (int c) = 2 \<or> moore_count m (int r) (int c) = 3)
           \<or> m ! r ! c = 0 \<and> moore_count m (int r) (int c) = 3)"
    if "r < length m" "c < ncols m" for r c
    using cell [OF that] that by (auto simp: next_gen_nth next_cell_def Let_def)
  then show ?thesis
    using life_step_rect [OF assms(1)] by (simp add: next_gen_length next_gen_row)
qed

text \<open>The blinker: the horizontal bar becomes the vertical one.\<close>

theorem life_step_conway_witness:
  "rectangular [[0,0,0],[1,1,1],[0,0,0]] \<and> binary [[0,0,0],[1,1,1],[0,0,0]] \<and>
   life_step [[0,0,0],[1,1,1],[0,0,0]] = Inr [[0,1,0],[0,1,0],[0,1,0]] \<and>
   (\<exists>m'. life_step [[0,0,0],[1,1,1],[0,0,0]] = Inr m' \<and> m' ! 1 ! 1 = 1 \<and> m' ! 0 ! 1 = 1 \<and> m' ! 1 ! 0 \<noteq> 1)"
  proof -
  have r: "rectangular [[0,0,0],[1,1,1],[0,0,0]]" by (simp add: rectangular_def ncols_def)
  have b: "binary [[0,0,0],[1,1,1],[0,0,0]]" by (simp add: binary_def)
  have e: "life_step [[0,0,0],[1,1,1],[0,0,0]] = Inr [[0,1,0],[0,1,0],[0,1,0]]" by code_simp
  obtain m' where m': "life_step [[0,0,0],[1,1,1],[0,0,0]] = Inr m'"
    using life_step_conway [OF r b] by blast
  then have "m' = [[0,1,0],[0,1,0],[0,1,0]]" using e by simp
  then have "m' ! 1 ! 1 = 1 \<and> m' ! 0 ! 1 = 1 \<and> m' ! 1 ! 0 \<noteq> 1" by simp
  then show ?thesis using r b e m' by blast
qed

text \<open>
  Claim C2. For a rectangular matrix \<open>m\<close> (binary or not) and \<open>N \<ge> 1\<close>, \<^verbatim>\<open>simulate(m, N)\<close>
  returns exactly \<open>N\<close> frames, frame 0 is \<open>m\<close>, and frame \<open>i\<close>, for \<open>1 \<le> i \<le> N - 1\<close>, is what
  \<open>i\<close> successive calls of \<^verbatim>\<open>life_step\<close> return from \<open>m\<close>.
\<close>

theorem simulate_frames:
  assumes "rectangular m" and "1 \<le> N"
  shows "\<exists>frames. simulate m N = Inr frames \<and> int (length frames) = N \<and> frames ! 0 = m \<and>
           (\<forall>i. 1 \<le> i \<and> int i \<le> N - 1 \<longrightarrow> step_n i m = Inr (frames ! i))"
proof -
  let ?frames = "map (\<lambda>i. (next_gen ^^ i) m) [0..<Suc (nat (N - 1))]"
  have len: "int (length ?frames) = N" using assms(2) by simp
  have "?frames ! i = (next_gen ^^ i) m" if "int i \<le> N - 1" for i
  proof -
    have "i < Suc (nat (N - 1))" using that by linarith
    then show ?thesis by (simp del: upt_Suc)
  qed
  then have "?frames ! 0 = m" and "\<forall>i. 1 \<le> i \<and> int i \<le> N - 1 \<longrightarrow> step_n i m = Inr (?frames ! i)"
    using assms by (simp_all add: step_n_rect)
  then show ?thesis using simulate_rect [OF assms(1), of N] len by blast
qed

theorem simulate_frames_witness:
  "rectangular [[0,0,0],[1,1,1],[0,0,0]] \<and> (1::int) \<le> 3 \<and>
   (\<exists>frames. simulate [[0,0,0],[1,1,1],[0,0,0]] 3 = Inr frames \<and> int (length frames) = 3 \<and>
      frames ! 0 = [[0,0,0],[1,1,1],[0,0,0]] \<and>
      step_n 1 [[0,0,0],[1,1,1],[0,0,0]] = Inr (frames ! 1) \<and>
      step_n 2 [[0,0,0],[1,1,1],[0,0,0]] = Inr (frames ! 2))"
proof -
  have r: "rectangular [[0,0,0],[1,1,1],[0,0,0]]" by (simp add: rectangular_def ncols_def)
  have n: "(1::int) \<le> 3" by simp
  obtain frames where f: "simulate [[0,0,0],[1,1,1],[0,0,0]] 3 = Inr frames" "int (length frames) = 3"
      "frames ! 0 = [[0,0,0],[1,1,1],[0,0,0]]"
      "\<forall>i. 1 \<le> i \<and> int i \<le> 3 - 1 \<longrightarrow> step_n i [[0,0,0],[1,1,1],[0,0,0]] = Inr (frames ! i)"
    using simulate_frames [OF r n] by blast
  have "step_n 1 [[0,0,0],[1,1,1],[0,0,0]] = Inr (frames ! 1)"
    using f(4) [THEN spec, of 1] by simp
  moreover have "step_n 2 [[0,0,0],[1,1,1],[0,0,0]] = Inr (frames ! 2)"
    using f(4) [THEN spec, of 2] by simp
  ultimately show ?thesis using r n f(1,2,3) by blast
qed

text \<open>
  Claim C7. For every matrix \<open>m\<close> and every \<open>steps \<le> 1\<close> (0 and the negative numbers
  included), \<^verbatim>\<open>simulate(m, steps)\<close> raises nothing and returns the one frame \<open>m\<close>:
  \<^verbatim>\<open>range(steps - 1)\<close> is empty, so \<^verbatim>\<open>life_step\<close> is never called.
\<close>

theorem simulate_single_frame:
  assumes "steps \<le> 1"
  shows "simulate m steps = Inr [m]"
  using assms by (simp add: simulate_def py_range_def try_bind_Inr)

theorem simulate_single_frame_witness:
  "(-3::int) \<le> 1 \<and> simulate [[0,0,0],[1,1,1],[0,0,0]] (-3) = Inr [[[0,0,0],[1,1,1],[0,0,0]]]"
proof -
  have h: "(-3::int) \<le> 1" by simp
  show ?thesis using simulate_single_frame [OF h, of "[[0,0,0],[1,1,1],[0,0,0]]"] h by (rule conjI [rotated])
qed

text \<open>
  Claim C8. \<^verbatim>\<open>life_step\<close> raises nothing on a matrix without rows or with \<open>n\<close> rows without
  columns: it returns the empty matrix, respectively \<open>n\<close> empty rows.
\<close>

theorem life_step_degenerate:
  "life_step [] = Inr [] \<and> life_step (replicate n []) = Inr (replicate n [])"
proof -
  have nc: "ncols (replicate n []) = 0" by (cases n) (simp_all add: ncols_def)
  have "rectangular (replicate n [])" by (simp add: rectangular_def nc)
  moreover have "next_gen (replicate n []) = replicate n []"
    by (simp add: next_gen_def nc map_replicate_const)
  moreover have "rectangular []" by (simp add: rectangular_def)
  moreover have "next_gen [] = []" by (simp add: next_gen_def)
  ultimately show ?thesis using life_step_rect by metis
qed

section \<open>ImageValidator: proofs\<close>

lemma py_split_nonempty: "py_split sep s \<noteq> []"
  by (induction s) (auto split: list.splits)

lemma py_split_no_sep: "sep \<notin> set s \<Longrightarrow> py_split sep s = [s]"
  by (induction s) auto

lemma py_split_sep: "sep \<in> set s \<Longrightarrow> \<exists>w v ws. py_split sep s = w # v # ws"
proof (induction s)
  case Nil
  then show ?case by simp
next
  case (Cons c cs)
  show ?case
  proof (cases "c = sep")
    case True
    then show ?thesis using py_split_nonempty [of sep cs] by (cases "py_split sep cs") auto
  next
    case False
    then have "sep \<in> set cs" using Cons.prems by simp
    then obtain w v ws where "py_split sep cs = w # v # ws" using Cons.IH by blast
    then show ?thesis using False by simp
  qed
qed

lemma last_py_split: "last (py_split sep s) = rev (takeWhile (\<lambda>c. c \<noteq> sep) (rev s))"
proof (induction s)
  case Nil
  then show ?case by simp
next
  case (Cons c cs)
  show ?case
  proof (cases "c = sep")
    case True
    then show ?thesis
      using Cons.IH py_split_nonempty [of sep cs] by (simp add: takeWhile_append)
  next
    case False
    show ?thesis
    proof (cases "sep \<in> set cs")
      case True
      then obtain w v ws where "py_split sep cs = w # v # ws" using py_split_sep by blast
      then show ?thesis using Cons.IH False True by (auto simp: takeWhile_append)
    next
      case False
      then show ?thesis using \<open>c \<noteq> sep\<close> by (simp add: py_split_no_sep takeWhile_append)
    qed
  qed
qed

lemma local_name_split: "last (py_split CHR ''}'' t) = local_name t"
  by (simp add: last_py_split local_name_def)

lemma local_name_qualified:
  "CHR ''}'' \<notin> set l \<Longrightarrow> local_name (''{'' @ uri @ ''}'' @ l) = l"
  by (simp add: local_name_def takeWhile_append)

lemma lower_brace: "lower_char c = CHR ''}'' \<longleftrightarrow> c = CHR ''}''"
  by (simp add: lower_char_def)

lemma tag_decomp: "\<exists>p. t = p @ local_name t \<and> (p = [] \<or> last p = CHR ''}'')"
proof -
  let ?P = "\<lambda>c. c \<noteq> CHR ''}''"
  let ?p = "rev (dropWhile ?P (rev t))"
  have "t = ?p @ local_name t"
    unfolding local_name_def rev_append [symmetric] takeWhile_dropWhile_id by simp
  moreover have "last ?p = CHR ''}''" if "?p \<noteq> []"
    using that hd_dropWhile [of ?P "rev t"] by (simp add: last_rev)
  ultimately show ?thesis by blast
qed

lemma suffix_guard:
  assumes "p = [] \<or> last p = b" and "b \<notin> set xs"
  shows "suffix xs (p @ l) = suffix xs l"
proof
  assume "suffix xs (p @ l)"
  then consider "suffix xs l" | xs' where "xs = xs' @ l" "suffix xs' p"
    unfolding suffix_append by blast
  then show "suffix xs l"
  proof cases
    case 1
    then show ?thesis .
  next
    case 2
    show ?thesis
    proof (cases "xs' = []")
      case True
      then show ?thesis using 2(1) by simp
    next
      case False
      obtain zs where zs: "p = zs @ xs'" using 2(2) by (auto simp: suffix_def)
      then have "last p = last xs'" and "p \<noteq> []" using False by simp_all
      then have "b \<in> set xs'" using assms(1) False by (metis last_in_set)
      then show ?thesis using assms(2) 2(1) by simp
    qed
  qed
next
  assume "suffix xs l"
  then show "suffix xs (p @ l)" by (rule suffix_appendI)
qed

lemma svg_suffix_local:
  "suffix ''svg'' (py_lower t) = suffix ''svg'' (py_lower (local_name t))"
proof -
  obtain p where p: "t = p @ local_name t" "p = [] \<or> last p = CHR ''}''"
    using tag_decomp by blast
  have "py_lower t = py_lower p @ py_lower (local_name t)"
    using p(1) unfolding py_lower_def by (metis map_append)
  moreover have "py_lower p = [] \<or> last (py_lower p) = CHR ''}''"
  proof (cases "p = []")
    case True
    then show ?thesis by (simp add: py_lower_def)
  next
    case False
    then have "last (py_lower p) = lower_char (last p)" by (simp add: py_lower_def last_map)
    then show ?thesis using p(2) False by (simp add: lower_brace)
  qed
  ultimately show ?thesis using suffix_guard [of "py_lower p" "CHR ''}''" "''svg''"] by simp
qed

subsection \<open>The claim about the exit codes\<close>

text \<open>
  Claim C3, as the code has it. The validator returns 2 exactly when the file does not
  parse; otherwise 4 exactly when the lower-cased local name of the root's tag does not
  end in \<^verbatim>\<open>svg\<close> (the namespace plays no part, but the letter case and what precedes
  \<^verbatim>\<open>svg\<close> in the local name do not either); otherwise 3 exactly when the root's
  \<^verbatim>\<open>width\<close> or \<^verbatim>\<open>height\<close> is absent or the empty string; otherwise 5 exactly when no
  element of the tree has the local name \<^verbatim>\<open>animate\<close>; otherwise 0.
\<close>

theorem validate_exit_codes:
  "validate_main parsed =
     (case parsed of
        None \<Rightarrow> 2
      | Some root_elem \<Rightarrow>
          if \<not> suffix ''svg'' (py_lower (local_name (tag root_elem))) then 4
          else if element_get root_elem ''width'' \<in> {None, Some ''''}
                  \<or> element_get root_elem ''height'' \<in> {None, Some ''''} then 3
          else if \<not> (\<exists>e \<in> set (iter root_elem). local_name (tag e) = ''animate'') then 5
          else 0)"
proof (cases parsed)
  case None
  then show ?thesis by (simp add: validate_main_def)
next
  case (Some root_elem)
  have f: "falsy v = (v \<in> {None, Some ''''})" for v
    by (cases v) (auto simp: falsy_def)
  have a: "(''animate'' \<notin> set (map (\<lambda>elem. last (py_split CHR ''}'' (tag elem))) (iter root_elem)))
           = (\<not> (\<exists>e \<in> set (iter root_elem). local_name (tag e) = ''animate''))"
    unfolding local_name_split by (auto simp: image_iff)
  have s: "py_endswith (py_lower (tag root_elem)) ''svg'' = suffix ''svg'' (py_lower (local_name (tag root_elem)))"
    unfolding py_endswith_def by (rule svg_suffix_local)
  show ?thesis
    by (simp only: Some validate_main_def Let_def s a f option.case if_not_P if_P split: if_splits) simp
qed

text \<open>
  Claim C3 as stated fails twice. A root \<^verbatim>\<open><svg width="" height="10">\<close> has both
  attributes, yet the code returns 3; a root \<^verbatim>\<open><mysvg width="10" height="10">\<close> is not the
  vector-image root, yet the code goes on and returns 0.
\<close>

theorem validate_spec_counterexample:
  "validate_main (Some (Element ''svg'' [(''width'', ''''), (''height'', ''10'')] [Element ''animate'' [] []])) = 3
   \<and> validate_spec (Some (Element ''svg'' [(''width'', ''''), (''height'', ''10'')] [Element ''animate'' [] []])) = 0
   \<and> validate_main (Some (Element ''mysvg'' [(''width'', ''10''), (''height'', ''10'')] [Element ''animate'' [] []])) = 0
   \<and> validate_spec (Some (Element ''mysvg'' [(''width'', ''10''), (''height'', ''10'')] [Element ''animate'' [] []])) = 4"
  by (simp add: validate_main_def validate_spec_def py_endswith_def py_lower_def lower_char_def
      element_get_def falsy_def local_name_def suffix_def)

section \<open>GridFetcher: proofs\<close>

lemma trunc_div10_ge: "70 \<le> n \<Longrightarrow> 7 \<le> trunc_div10 n"
  by (simp add: trunc_div10_def)

lemma trunc_div10_neg: "-79 \<le> n \<Longrightarrow> n \<le> -10 \<Longrightarrow> -7 \<le> trunc_div10 n \<and> trunc_div10 n \<le> -1"
  by (simp add: trunc_div10_def) linarith

lemma py_set_high: "int (length xs) \<le> i \<Longrightarrow> py_set xs i v = Inl IndexError"
  by (simp add: py_set_def py_index_def)

lemma py_set_negative:
  "- int (length xs) \<le> i \<Longrightarrow> i < 0 \<Longrightarrow> py_set xs i v = Inr (xs[nat (int (length xs) + i) := v])"
  by (simp add: py_set_def py_index_def)

lemma place_rect_high:
  assumes "tag_get rct ''y'' = Some ys" and "float_int ys = Some n" and "70 \<le> n"
    and "str_int (tag_get_default rct ''data-count'' (tag_get_default rct ''data-level'' ''0'')) = Some k"
  shows "place_rect str_int float_int rects rct (replicate 7 0) = Inl IndexError"
  using assms trunc_div10_ge [OF assms(3)]
  by (simp add: place_rect_def row_of_y_def py_set_high)

lemma place_rect_negative:
  assumes "tag_get rct ''y'' = Some ys" and "float_int ys = Some n" and "-79 \<le> n" and "n \<le> -10"
    and "str_int (tag_get_default rct ''data-count'' (tag_get_default rct ''data-level'' ''0'')) = Some k"
  shows "place_rect str_int float_int rects rct (replicate 7 0)
         = Inr ((replicate 7 0)[nat (7 + trunc_div10 n) := (if k > 0 then 1 else 0)])"
  using assms trunc_div10_neg [OF assms(3,4)]
  by (simp add: place_rect_def row_of_y_def py_set_negative)

lemma transpose_single:
  assumes "length col = 7"
  shows "comprehension (\<lambda>r.
           comprehension (\<lambda>c.
             try_bind (py_get [col] c) (\<lambda>column.
             if r < int (length column) then py_get column r else Inr 0))
             (py_range 1))
           (py_range 7) = Inr (map (\<lambda>r. [col ! r]) [0..<7])"
  using assms
  by (simp add: py_range_def py_get_def py_index_def try_bind_def upt_conv_Cons eval_nat_numeral del: upt_Suc)

subsection \<open>The claims about the row of a rectangle\<close>

text \<open>
  Claim C10. Nothing bounds the decoded row by the column height 7. Take a response whose
  first group starts with a rectangle whose \<^verbatim>\<open>y\<close> reads as the number \<open>n\<close> and whose count
  reads as a number. When \<open>n \<ge> 70\<close> (row 7 or more), \<^verbatim>\<open>col[yi] = ...\<close> raises
  \<^verbatim>\<open>IndexError\<close>, which nothing catches: neither a \<^verbatim>\<open>RuntimeError\<close> nor a matrix comes out.
  When \<open>-79 \<le> n \<le> -10\<close> (row \<open>-7 .. -1\<close>) and the rectangle is the only one, the matrix
  is returned with the cell written to row \<open>7 + yi\<close>, counted from the end of the column.
\<close>

theorem fetch_row_unbounded:
  assumes "find_first soup ''svg'' = Some svg"
    and "find_all svg ''g'' = g # gs"
    and "find_all g ''rect'' = rct # rs"
    and "tag_get rct ''y'' = Some ys"
    and "float_int ys = Some n"
    and "str_int (tag_get_default rct ''data-count'' (tag_get_default rct ''data-level'' ''0'')) = Some k"
  shows "(70 \<le> n \<longrightarrow> fetch_contributions_matrix str_int float_int (Inr soup) = Inl IndexError)
       \<and> (-79 \<le> n \<and> n \<le> -10 \<and> gs = [] \<and> rs = [] \<longrightarrow>
            fetch_contributions_matrix str_int float_int (Inr soup)
            = Inr (map (\<lambda>r. [if int r = 7 + trunc_div10 n \<and> k > 0 then 1 else 0]) [0..<7]))"
proof (intro conjI impI)
  assume "70 \<le> n"
  then have "place_rect str_int float_int (rct # rs) rct (replicate 7 0) = Inl IndexError"
    using assms by (intro place_rect_high) auto
  then show "fetch_contributions_matrix str_int float_int (Inr soup) = Inl IndexError"
    using assms(1,2,3) by (simp add: fetch_contributions_matrix_def try_bind_def)
next
  assume a: "-79 \<le> n \<and> n \<le> -10 \<and> gs = [] \<and> rs = []"
  let ?col = "(replicate 7 0)[nat (7 + trunc_div10 n) := (if k > 0 then 1 else (0::int))]"
  have p: "place_rect str_int float_int [rct] rct (replicate 7 0) = Inr ?col"
    using assms a by (intro place_rect_negative) auto
  have i: "-7 \<le> trunc_div10 n \<and> trunc_div10 n \<le> -1" using a trunc_div10_neg by blast
  have "fetch_contributions_matrix str_int float_int (Inr soup) = Inr (map (\<lambda>r. [?col ! r]) [0..<7])"
    using assms(1,2,3) a p transpose_single [of ?col]
    by (simp add: fetch_contributions_matrix_def try_bind_Inr Let_def del: upt_Suc)
  also have "map (\<lambda>r. [?col ! r]) [0..<7] = map (\<lambda>r. [if int r = 7 + trunc_div10 n \<and> k > 0 then 1 else 0]) [0..<7]"
    using i by (intro map_cong) (auto simp: nth_list_update)
  finally show "fetch_contributions_matrix str_int float_int (Inr soup)
            = Inr (map (\<lambda>r. [if int r = 7 + trunc_div10 n \<and> k > 0 then 1 else 0]) [0..<7])" .
qed

theorem fetch_row_unbounded_witness:
  "fetch_contributions_matrix (map_of [(''1'', 1)]) (map_of [(''70'', 70), (''-10'', -10)])
     (Inr (Tag ''[document]'' [] [Tag ''svg'' [] [Tag ''g'' []
        [Tag ''rect'' [(''y'', ''70''), (''data-count'', ''1'')] []]]]))
   = Inl IndexError
   \<and> fetch_contributions_matrix (map_of [(''1'', 1)]) (map_of [(''70'', 70), (''-10'', -10)])
     (Inr (Tag ''[document]'' [] [Tag ''svg'' [] [Tag ''g'' []
        [Tag ''rect'' [(''y'', ''-10''), (''data-count'', ''1'')] []]]]))
   = Inr [[0], [0], [0], [0], [0], [0], [1]]"
proof -
  let ?si = "map_of [(''1'', 1::int)]"
  let ?fi = "map_of [(''70'', 70::int), (''-10'', -10)]"
  let ?high = "Tag ''rect'' [(''y'', ''70''), (''data-count'', ''1'')] []"
  let ?low = "Tag ''rect'' [(''y'', ''-10''), (''data-count'', ''1'')] []"
  let ?doc = "\<lambda>rct. Tag ''[document]'' [] [Tag ''svg'' [] [Tag ''g'' [] [rct]]]"
  have h1: "find_first (?doc ?high) ''svg'' = Some (Tag ''svg'' [] [Tag ''g'' [] [?high]])"
    and h2: "find_all (Tag ''svg'' [] [Tag ''g'' [] [?high]]) ''g'' = Tag ''g'' [] [?high] # []"
    and h3: "find_all (Tag ''g'' [] [?high]) ''rect'' = ?high # []"
    and h4: "tag_get ?high ''y'' = Some ''70''"
    and h5: "?fi ''70'' = Some 70"
    and h6: "?si (tag_get_default ?high ''data-count'' (tag_get_default ?high ''data-level'' ''0'')) = Some 1"
    by (simp_all add: find_first_def find_all_def named_def tag_get_def tag_get_default_def)
  have l1: "find_first (?doc ?low) ''svg'' = Some (Tag ''svg'' [] [Tag ''g'' [] [?low]])"
    and l2: "find_all (Tag ''svg'' [] [Tag ''g'' [] [?low]]) ''g'' = Tag ''g'' [] [?low] # []"
    and l3: "find_all (Tag ''g'' [] [?low]) ''rect'' = ?low # []"
    and l4: "tag_get ?low ''y'' = Some ''-10''"
    and l5: "?fi ''-10'' = Some (-10)"
    and l6: "?si (tag_get_default ?low ''data-count'' (tag_get_default ?low ''data-level'' ''0'')) = Some 1"
    by (simp_all add: find_first_def find_all_def named_def tag_get_def tag_get_default_def)
  have "fetch_contributions_matrix ?si ?fi (Inr (?doc ?high)) = Inl IndexError"
    using fetch_row_unbounded [of _ _ _ _ _ _ _ ?fi _ ?si _, OF h1 h2 h3 h4 h5 h6] by simp
  moreover have "fetch_contributions_matrix ?si ?fi (Inr (?doc ?low))
          = Inr (map (\<lambda>r. [if int r = 7 + trunc_div10 (-10) \<and> (1::int) > 0 then 1 else 0]) [0..<7])"
    using fetch_row_unbounded [of _ _ _ _ _ _ _ ?fi _ ?si _, OF l1 l2 l3 l4 l5 l6] by simp
  ultimately show ?thesis
    by (simp add: trunc_div10_def upt_conv_Cons del: upt_Suc)
qed

text \<open>
  Claim C4 at a group of two different rectangles without \<^verbatim>\<open>y\<close>: the \<^verbatim>\<open>except\<close> branch counts
  the rectangles equal to the current one and subtracts 1, so both get row 0, the second
  overwrites the first, and the column comes out dead. By enumeration order the live
  first rectangle would stay in row 0 and the second go to row 1.
\<close>

theorem fetch_fallback_overwrites:
  assumes "str_int ''1'' = Some 1" and "str_int ''0'' = Some 0"
  shows "fetch_contributions_matrix str_int float_int
           (Inr (Tag ''[document]'' [] [Tag ''svg'' [] [Tag ''g'' []
              [Tag ''rect'' [(''data-count'', ''1'')] [], Tag ''rect'' [(''data-count'', ''0'')] []]]]))
         = Inr [[0], [0], [0], [0], [0], [0], [0]]"
  using assms
  by (simp add: fetch_contributions_matrix_def find_first_def find_all_def named_def place_rect_def
      tag_get_def tag_get_default_def row_of_y_def fallback_row_def dict_eq_def
      py_set_def py_get_def py_index_def py_range_def try_bind_def upt_conv_Cons eval_nat_numeral
      del: upt_Suc)

theorem fetch_fallback_overwrites_witness:
  "map_of [(''1'', 1), (''0'', 0)] ''1'' = Some (1::int) \<and> map_of [(''1'', 1), (''0'', 0)] ''0'' = Some (0::int)
   \<and> fetch_contributions_matrix (map_of [(''1'', 1), (''0'', 0)]) (\<lambda>s. None)
           (Inr (Tag ''[document]'' [] [Tag ''svg'' [] [Tag ''g'' []
              [Tag ''rect'' [(''data-count'', ''1'')] [], Tag ''rect'' [(''data-count'', ''0'')] []]]]))
         = Inr [[0], [0], [0], [0], [0], [0], [0]]"
proof -
  have a: "map_of [(''1'', 1), (''0'', 0)] ''1'' = Some (1::int)" by simp
  have b: "map_of [(''1'', 1), (''0'', 0)] ''0'' = Some (0::int)" by simp
  show ?thesis using fetch_fallback_overwrites [OF a b, of "\<lambda>s. None"] a b by blast
qed

section \<open>AnimationRenderer: proofs\<close>

lemma py_get_nat: "i < length xs \<Longrightarrow> py_get xs (int i) = Inr (xs ! i)"
  by (simp add: py_get_def py_index_def)

lemma fold_snoc_map: "fold (\<lambda>x acc. acc @ [h x]) xs acc = acc @ map h xs"
  by (induction xs arbitrary: acc) simp_all

lemma frame_cells_ok:
  assumes sh: "shaped rows cols frame"
  shows "\<exists>g_cells. frame_cells (int rows) (int cols) cell gap alive_color frame = Inr g_cells
           \<and> cells_inv cell alive_color g_cells"
proof -
  let ?emit = "\<lambda>r c g_cells. if frame ! nat r ! nat c = 1
      then g_cells @ [rect cell (c * (cell + gap)) (r * (cell + gap)) alive_color] else g_cells"
  let ?body = "\<lambda>r c g_cells.
         try_bind (py_get frame r) (\<lambda>row.
         try_bind (py_get row c) (\<lambda>v.
           if v = 1
           then Inr (g_cells @ [rect cell (c * (cell + gap)) (r * (cell + gap)) alive_color])
           else Inr g_cells))"
  let ?I = "cells_inv cell alive_color"
  have inner: "for_loop (?body r) (py_range (int cols)) s = Inr (fold (?emit r) (py_range (int cols)) s)
               \<and> ?I (fold (?emit r) (py_range (int cols)) s)"
    if rmem: "r \<in> set (py_range (int rows))" and s: "?I s" for r s
  proof (rule for_loop_inv [of ?I, OF s])
    fix c s'
    assume cmem: "c \<in> set (py_range (int cols))" and s': "?I s'"
    obtain i where i: "r = int i" "i < rows" using py_range_mem [OF rmem] by blast
    obtain j where j: "c = int j" "j < cols" using py_range_mem [OF cmem] by blast
    have "i < length frame" "j < length (frame ! i)" using sh i j by (auto simp: shaped_def)
    then have "?body r c s' = Inr (?emit r c s')"
      unfolding i j by (simp add: py_get_nat try_bind_Inr)
    moreover have "?I (?emit r c s')" using s' by (auto simp: cells_inv_def)
    ultimately show "?body r c s' = Inr (?emit r c s') \<and> ?I (?emit r c s')" by blast
  qed
  have "?I []" by (simp add: cells_inv_def)
  from for_loop_inv [of ?I "[]" "py_range (int rows)" "\<lambda>r. for_loop (?body r) (py_range (int cols))"
      "\<lambda>r. fold (?emit r) (py_range (int cols))", OF this inner]
  show ?thesis unfolding frame_cells_def by blast
qed

lemma cells_of_ok:
  assumes "shaped rows cols frame"
  shows "frame_cells (int rows) (int cols) cell gap alive_color frame
           = Inr (cells_of (int rows) (int cols) cell gap alive_color frame)"
    and "cells_inv cell alive_color (cells_of (int rows) (int cols) cell gap alive_color frame)"
  using frame_cells_ok [OF assms, of cell gap alive_color] by (auto simp: cells_of_def)

lemma render_parts_ok:
  assumes ne: "frames \<noteq> []"
    and sh: "\<forall>f \<in> set frames. shaped (length (hd frames)) (ncols (hd frames)) f"
  shows \<open>render_parts fl frames cell gap alive_color dead_color frame_duration =
     Inr ([''<?xml version="1.0" encoding="UTF-8"?>'',
           ''<svg xmlns="http://www.w3.org/2000/svg" viewBox="0 0 ''
             @ py_str (int (ncols (hd frames)) * (cell + gap) - gap) @ '' ''
             @ py_str (int (length (hd frames)) * (cell + gap) - gap) @ ''" width="''
             @ py_str (int (ncols (hd frames)) * (cell + gap) - gap) @ ''" height="''
             @ py_str (int (length (hd frames)) * (cell + gap) - gap) @ ''">'',
           ''<g id="bg">''
             @ concat (background (int (length (hd frames))) (int (ncols (hd frames))) cell gap dead_color)
             @ ''</g>'']
          @ map (\<lambda>(k, frame).
                frame_group k
                  (cells_of (int (length (hd frames))) (int (ncols (hd frames))) cell gap alive_color frame)
                  (fmt_fixed 3 (fl (frame_duration * of_nat (length frames))))
                  (key_times_str fl (length frames))
                  (py_join '';'' (opacity_values (length frames) k)))
              (zip [0..<length frames] frames)
          @ [''</svg>''])\<close>
proof -
  let ?rows = "int (length (hd frames))" and ?cols = "int (ncols (hd frames))"
  let ?grp = "\<lambda>(k, frame).
                frame_group k (cells_of ?rows ?cols cell gap alive_color frame)
                  (fmt_fixed 3 (fl (frame_duration * of_nat (length frames))))
                  (key_times_str fl (length frames))
                  (py_join '';'' (opacity_values (length frames) k))"
  let ?body = "\<lambda>(k, frame) parts.
            try_bind (frame_cells ?rows ?cols cell gap alive_color frame) (\<lambda>g_cells.
            Inr (parts @ [frame_group k g_cells (fmt_fixed 3 (fl (frame_duration * of_nat (length frames))))
                            (key_times_str fl (length frames))
                            (py_join '';'' (opacity_values (length frames) k))]))"
  have f0: "py_get frames 0 = Inr (hd frames)"
    using ne by (cases frames) (simp_all add: py_get_def py_index_def)
  have cols: "(if ?rows \<noteq> 0 then try_bind (py_get (hd frames) 0) (\<lambda>row0. Inr (int (length row0))) else Inr 0)
              = Inr ?cols"
    by (cases "hd frames") (simp_all add: py_get_def py_index_def try_bind_def ncols_def)
  have loop: "for_loop ?body xs parts = Inr (parts @ map ?grp xs)"
    if "set xs \<subseteq> set (zip [0..<length frames] frames)" for xs parts
    using that
  proof (induction xs arbitrary: parts)
    case Nil
    then show ?case by simp
  next
    case (Cons x xs)
    obtain k frame where x: "x = (k, frame)" by (cases x)
    then have "frame \<in> set frames" using Cons.prems by (auto dest: set_zip_rightD)
    then have "shaped (length (hd frames)) (ncols (hd frames)) frame" using sh by blast
    then have "?body x parts = Inr (parts @ [?grp x])"
      unfolding x by (simp add: cells_of_ok(1) try_bind_Inr)
    then show ?case using Cons by (simp add: try_bind_Inr)
  qed
  show ?thesis
    unfolding render_parts_def f0 try_bind_Inr Let_def cols
    by (simp add: loop try_bind_Inr)
qed

lemma digits_of_small: "n < 10 \<Longrightarrow> digits_of n = [''0123456789'' ! n]"
  by (subst digits_of.simps) simp

lemma digits_of_big: "10 \<le> n \<Longrightarrow> digits_of n = digits_of (n div 10) @ [''0123456789'' ! (n mod 10)]"
  by (subst digits_of.simps) simp




section \<open>The renderer and the validator together: proofs\<close>

subsection \<open>The parser reads the tags of the renderer back\<close>

lemma xrun_append:
  "xrun st (a @ b) = (case xrun st a of None \<Rightarrow> None | Some st' \<Rightarrow> xrun st' b)"
  by (induction a arbitrary: st) (auto split: option.splits)

lemma xrun_then: "xrun st a = Some st' \<Longrightarrow> xrun st (a @ b) = xrun st' b"
  by (simp add: xrun_append)

lemma xrun_single: "xrun st [c] = xstep st c"
  by (simp split: option.splits)

lemma name_start_char: "name_start c \<Longrightarrow> name_char c"
  by (simp add: name_char_def)

lemma value_char_quote: \<open>\<not> value_char (CHR 0x22)\<close>
  by (simp add: value_char_def)

lemma not_name_chars:
  "\<not> name_char CHR '' ''" "\<not> name_char CHR ''/''" "\<not> name_char CHR ''>''" "\<not> name_char CHR ''=''"
  "\<not> name_start CHR '' ''" "\<not> name_start CHR ''/''" "\<not> name_start CHR ''>''"
  by (simp_all add: name_char_def name_start_def)

lemma space_chars:
  "is_space CHR '' ''" "is_space (CHR 0x0A)" "\<not> is_space CHR ''/''" "\<not> is_space CHR ''>''"
  "\<not> is_space CHR ''=''" "\<not> is_space CHR ''<''" \<open>\<not> is_space (CHR 0x22)\<close>
  by (simp_all add: is_space_def)

lemma run_stag_name:
  "list_all name_char cs \<Longrightarrow> xrun (STagName nm, S, d) cs = Some (STagName (nm @ cs), S, d)"
  by (induction cs arbitrary: nm) simp_all

lemma run_attr_name:
  "list_all name_char cs \<Longrightarrow> xrun (AttrName nm A an, S, d) cs = Some (AttrName nm A (an @ cs), S, d)"
  by (induction cs arbitrary: an) simp_all

lemma run_etag_name:
  "list_all name_char cs \<Longrightarrow> xrun (ETagName nm, S, d) cs = Some (ETagName (nm @ cs), S, d)"
  by (induction cs arbitrary: nm) simp_all

lemma run_value:
  "safe_value v \<Longrightarrow> xrun (InValue nm A an buf, S, d) v = Some (InValue nm A an (buf @ v), S, d)"
  unfolding safe_value_def by (induction v arbitrary: buf) simp_all

lemma run_attr:
  assumes "valid_name k" and "k \<notin> set (map fst A)" and "safe_value v"
    and "k = ''xmlns'' \<longrightarrow> v = svg_namespace"
  shows \<open>xrun (InTag nm A, S, d) (k @ ''="'' @ v @ ''"'') = Some (AfterValue nm (A @ [(k, v)]), S, d)\<close>
proof -
  obtain c cs where k: "k = c # cs" "name_start c" "list_all name_char cs"
    using assms(1) by (auto simp: valid_name_def split: list.splits)
  have 1: "xrun (InTag nm A, S, d) k = Some (AttrName nm A k, S, d)"
    unfolding k(1) using k(2,3) by (simp add: run_attr_name)
  have 2: \<open>xrun (AttrName nm A k, S, d) ''="'' = Some (InValue nm A k [], S, d)\<close>
    using assms(2) by (simp add: not_name_chars space_chars)
  have 3: "xrun (InValue nm A k [], S, d) v = Some (InValue nm A k v, S, d)"
    using run_value [OF assms(3), of nm A k "[]"] by simp
  have 4: \<open>xrun (InValue nm A k v, S, d) ''"'' = Some (AfterValue nm (A @ [(k, v)]), S, d)\<close>
    using assms(4) by (simp add: value_char_quote)
  show ?thesis
    by (simp only: xrun_then [OF 1] xrun_then [OF 2] xrun_then [OF 3] 4)
qed

lemma run_attrs:
  assumes "ok_attrs (A0 @ A)"
  shows "xrun (AfterValue nm A0, S, d) (concat (map attr_markup A)) = Some (AfterValue nm (A0 @ A), S, d)"
  using assms
proof (induction A arbitrary: A0)
  case Nil
  then show ?case by simp
next
  case (Cons kv A)
  obtain k v where kv: "kv = (k, v)" by (cases kv)
  have ok: "valid_name k" "k \<notin> set (map fst A0)" "safe_value v" "ok_attrs ((A0 @ [(k, v)]) @ A)"
      "k = ''xmlns'' \<longrightarrow> v = svg_namespace"
    using Cons.prems unfolding kv by (auto simp: ok_attrs_def)
  have 1: "xrun (AfterValue nm A0, S, d) '' '' = Some (InTag nm A0, S, d)"
    by (simp add: space_chars)
  have 2: "xrun (AfterValue nm A0, S, d) (attr_markup (k, v)) = Some (AfterValue nm (A0 @ [(k, v)]), S, d)"
    unfolding attr_markup_def fst_conv snd_conv xrun_then [OF 1] by (rule run_attr [OF ok(1,2,3,5)])
  have "xrun (AfterValue nm A0, S, d) (attr_markup (k, v) @ concat (map attr_markup A))
        = Some (AfterValue nm ((A0 @ [(k, v)]) @ A), S, d)"
    unfolding xrun_then [OF 2] by (rule Cons.IH [OF ok(4)])
  then show ?case by (simp add: kv)
qed

lemma run_tag_attrs:
  assumes "valid_name nm" and "ok_attrs A"
  shows "xrun (Lt, S, d) (nm @ concat (map attr_markup A))
         = (if S = [] \<and> d \<noteq> None then None
            else Some (if A = [] then STagName nm else AfterValue nm A, S, d))"
proof (cases "S = [] \<and> d \<noteq> None")
  case True
  then show ?thesis using assms(1) by (auto simp: valid_name_def split: list.splits)
next
  case False
  obtain c cs where nm: "nm = c # cs" "name_start c" "list_all name_char cs"
    using assms(1) by (auto simp: valid_name_def split: list.splits)
  have 1: "xrun (Lt, S, d) nm = Some (STagName nm, S, d)"
    unfolding nm(1) using nm(2,3) False by (simp add: run_stag_name)
  show ?thesis
  proof (cases A)
    case Nil
    then show ?thesis using 1 False by simp
  next
    case (Cons kv A')
    obtain k v where kv: "kv = (k, v)" by (cases kv)
    have ok: "valid_name k" "safe_value v" "ok_attrs ([(k, v)] @ A')"
        "k = ''xmlns'' \<longrightarrow> v = svg_namespace"
      using assms(2) unfolding Cons kv by (auto simp: ok_attrs_def)
    have 2: "xrun (STagName nm, S, d) '' '' = Some (InTag nm [], S, d)"
      by (simp add: space_chars not_name_chars)
    have 3: "xrun (STagName nm, S, d) (attr_markup (k, v)) = Some (AfterValue nm [(k, v)], S, d)"
      unfolding attr_markup_def fst_conv snd_conv xrun_then [OF 2]
      using run_attr [OF ok(1) _ ok(2,4), of "[]" nm S d] by simp
    have "xrun (Lt, S, d) (nm @ attr_markup (k, v) @ concat (map attr_markup A'))
          = Some (AfterValue nm ([(k, v)] @ A'), S, d)"
      unfolding xrun_then [OF 1] xrun_then [OF 3] by (rule run_attrs [OF ok(3)])
    then show ?thesis using False by (simp add: Cons kv)
  qed
qed

lemma run_start_tag:
  assumes "valid_name nm" and "ok_attrs A" and "S \<noteq> [] \<or> d = None"
  shows "xrun (Content, S, d) (start_tag nm A) = Some (Content, (nm, A, []) # S, d)"
proof -
  have 1: "xrun (Content, S, d) ''<'' = Some (Lt, S, d)" by simp
  have 2: "xrun (Lt, S, d) (nm @ concat (map attr_markup A))
           = Some (if A = [] then STagName nm else AfterValue nm A, S, d)"
    using run_tag_attrs [OF assms(1,2), of S d] assms(3) by auto
  have 3: "xrun (if A = [] then STagName nm else AfterValue nm A, S, d) ''>''
           = Some (Content, (nm, A, []) # S, d)"
    by (simp add: space_chars not_name_chars)
  show ?thesis
    unfolding start_tag_def xrun_then [OF 1]
    using xrun_then [OF 2, of "''>''"] 3 by simp
qed

lemma run_empty_tag:
  assumes "valid_name nm" and "ok_attrs A" and "S \<noteq> [] \<or> d = None"
  shows "xrun (Content, S, d) (empty_tag nm A) = add_element (Element nm A []) S d"
proof -
  have 1: "xrun (Content, S, d) ''<'' = Some (Lt, S, d)" by simp
  have 2: "xrun (Lt, S, d) (nm @ concat (map attr_markup A))
           = Some (if A = [] then STagName nm else AfterValue nm A, S, d)"
    using run_tag_attrs [OF assms(1,2), of S d] assms(3) by auto
  have a: "xrun (if A = [] then STagName nm else AfterValue nm A, S, d) ''/''
           = Some (EmptyClose nm A, S, d)"
    by (simp add: space_chars not_name_chars)
  have 3: "xrun (if A = [] then STagName nm else AfterValue nm A, S, d) (''/'' @ ''>'')
           = add_element (Element nm A []) S d"
    unfolding xrun_then [OF a] xrun_single by simp
  show ?thesis
    unfolding empty_tag_def xrun_then [OF 1]
    using xrun_then [OF 2, of "''/'' @ ''>''"] 3 by simp
qed

lemma run_end_tag:
  assumes "valid_name nm"
  shows "xrun (Content, (nm, A, cs) # S, d) (end_tag nm) = add_element (Element nm A cs) S d"
proof -
  obtain c cs' where nm: "nm = c # cs'" "name_start c" "list_all name_char cs'"
    using assms(1) by (auto simp: valid_name_def split: list.splits)
  have 1: "xrun (Content, (nm, A, cs) # S, d) ''</'' = Some (ETagStart, (nm, A, cs) # S, d)"
    by (simp add: not_name_chars)
  have 2: "xrun (ETagStart, (nm, A, cs) # S, d) nm = Some (ETagName nm, (nm, A, cs) # S, d)"
    unfolding nm(1) using nm(2,3) by (simp add: run_etag_name)
  have 3: "xrun (ETagName nm, (nm, A, cs) # S, d) ''>'' = add_element (Element nm A cs) S d"
    unfolding xrun_single by (simp add: space_chars not_name_chars close_element_def)
  show ?thesis
    unfolding end_tag_def xrun_then [OF 1]
    using xrun_then [OF 2, of "''>''"] 3 by simp
qed

lemma add_element_open:
  "add_element e ((t, A, cs) # S) d = Some (Content, (t, A, cs @ [e]) # S, d)"
  by (simp add: add_element_def)

lemma run_empty_tags:
  assumes "empty_tags ss"
  shows "\<exists>kids. \<forall>t A cs S d.
           xrun (Content, (t, A, cs) # S, d) (concat ss) = Some (Content, (t, A, cs @ kids) # S, d)"
  using assms
proof (induction ss)
  case Nil
  show ?case by (rule exI [of _ "[]"]) simp
next
  case (Cons s ss)
  obtain nm ats where s: "s = empty_tag nm ats" "valid_name nm" "ok_attrs ats"
    using Cons.prems by (auto simp: empty_tags_def)
  have "empty_tags ss" using Cons.prems by (simp add: empty_tags_def)
  then obtain kids where kids: "\<And>t A cs S d.
      xrun (Content, (t, A, cs) # S, d) (concat ss) = Some (Content, (t, A, cs @ kids) # S, d)"
    using Cons.IH by blast
  have 1: "xrun (Content, (t, A, cs) # S, d) s = Some (Content, (t, A, cs @ [Element nm ats []]) # S, d)"
    for t A cs S d
    unfolding s(1) using run_empty_tag [OF s(2,3), of "(t, A, cs) # S" d]
    by (simp add: add_element_open)
  show ?case
    by (rule exI [of _ "Element nm ats [] # kids"]) (simp add: xrun_then [OF 1] kids)
qed

lemma valid_names: "valid_name ''g''" "valid_name ''animate''" "valid_name ''svg''" "valid_name ''rect''"
  by (simp_all add: valid_name_def name_start_def name_char_def)

lemma run_group:
  assumes "group_markup s"
  shows "\<exists>g. animated_group g \<and> (\<forall>t A cs S d.
           xrun (Content, (t, A, cs) # S, d) s = Some (Content, (t, A, cs @ [g]) # S, d))"
proof -
  obtain ats cells ats' where s:
      "s = start_tag ''g'' ats @ concat cells @ empty_tag ''animate'' ats' @ end_tag ''g''"
      "ok_attrs ats" "ok_attrs ats'" "empty_tags cells"
      "map_of ats ''xmlns'' = None" "map_of ats' ''xmlns'' = None"
    using assms unfolding group_markup_def by blast
  obtain kids where kids: "\<And>t A cs S d.
      xrun (Content, (t, A, cs) # S, d) (concat cells) = Some (Content, (t, A, cs @ kids) # S, d)"
    using run_empty_tags [OF s(4)] by blast
  let ?g = "Element ''g'' ats (kids @ [Element ''animate'' ats' []])"
  have "xrun (Content, (t, A, cs) # S, d) s = Some (Content, (t, A, cs @ [?g]) # S, d)" for t A cs S d
  proof -
    have 1: "xrun (Content, (t, A, cs) # S, d) (start_tag ''g'' ats)
             = Some (Content, (''g'', ats, []) # (t, A, cs) # S, d)"
      by (rule run_start_tag [OF valid_names(1) s(2)]) simp
    have 2: "xrun (Content, (''g'', ats, []) # (t, A, cs) # S, d) (concat cells)
             = Some (Content, (''g'', ats, kids) # (t, A, cs) # S, d)"
      using kids [of "''g''" ats "[]"] by simp
    have 3: "xrun (Content, (''g'', ats, kids) # (t, A, cs) # S, d) (empty_tag ''animate'' ats')
             = Some (Content, (''g'', ats, kids @ [Element ''animate'' ats' []]) # (t, A, cs) # S, d)"
      using run_empty_tag [OF valid_names(2) s(3), of "(''g'', ats, kids) # (t, A, cs) # S" d]
      by (simp add: add_element_open)
    have 4: "xrun (Content, (''g'', ats, kids @ [Element ''animate'' ats' []]) # (t, A, cs) # S, d)
               (end_tag ''g'')
             = Some (Content, (t, A, cs @ [?g]) # S, d)"
      using run_end_tag [OF valid_names(1)] by (simp add: add_element_open)
    show ?thesis
      unfolding s(1) xrun_then [OF 1] xrun_then [OF 2] xrun_then [OF 3] by (rule 4)
  qed
  moreover have "animated_group ?g" using s(5,6) unfolding animated_group_def by blast
  ultimately show ?thesis by blast
qed

lemma run_plain_group:
  assumes "ok_attrs ats" and "empty_tags cells"
  shows "\<exists>g. \<forall>t A cs S d.
           xrun (Content, (t, A, cs) # S, d) (start_tag ''g'' ats @ concat cells @ end_tag ''g'')
           = Some (Content, (t, A, cs @ [g]) # S, d)"
proof -
  obtain kids where kids: "\<And>t A cs S d.
      xrun (Content, (t, A, cs) # S, d) (concat cells) = Some (Content, (t, A, cs @ kids) # S, d)"
    using run_empty_tags [OF assms(2)] by blast
  have "xrun (Content, (t, A, cs) # S, d) (start_tag ''g'' ats @ concat cells @ end_tag ''g'')
        = Some (Content, (t, A, cs @ [Element ''g'' ats kids]) # S, d)" for t A cs S d
  proof -
    have 1: "xrun (Content, (t, A, cs) # S, d) (start_tag ''g'' ats)
             = Some (Content, (''g'', ats, []) # (t, A, cs) # S, d)"
      by (rule run_start_tag [OF valid_names(1) assms(1)]) simp
    have 2: "xrun (Content, (''g'', ats, []) # (t, A, cs) # S, d) (concat cells)
             = Some (Content, (''g'', ats, kids) # (t, A, cs) # S, d)"
      using kids [of "''g''" ats "[]"] by simp
    have 3: "xrun (Content, (''g'', ats, kids) # (t, A, cs) # S, d) (end_tag ''g'')
             = Some (Content, (t, A, cs @ [Element ''g'' ats kids]) # S, d)"
      using run_end_tag [OF valid_names(1)] by (simp add: add_element_open)
    show ?thesis
      unfolding xrun_then [OF 1] xrun_then [OF 2] by (rule 3)
  qed
  then show ?thesis by blast
qed

lemma run_groups:
  assumes "list_all group_markup gs"
  shows "\<exists>gkids. length gkids = length gs \<and> list_all animated_group gkids \<and> (\<forall>t A cs S d.
           xrun (Content, (t, A, cs) # S, d) (concat (map (\<lambda>g. CHR 0x0A # g) gs))
           = Some (Content, (t, A, cs @ gkids) # S, d))"
  using assms
proof (induction gs)
  case Nil
  show ?case by (rule exI [of _ "[]"]) simp
next
  case (Cons s gs)
  obtain g where g: "animated_group g" "\<And>t A cs S d.
           xrun (Content, (t, A, cs) # S, d) s = Some (Content, (t, A, cs @ [g]) # S, d)"
    using run_group [of s] Cons.prems by auto
  obtain gkids where gk: "length gkids = length gs" "list_all animated_group gkids" "\<And>t A cs S d.
           xrun (Content, (t, A, cs) # S, d) (concat (map (\<lambda>g. CHR 0x0A # g) gs))
           = Some (Content, (t, A, cs @ gkids) # S, d)"
    using Cons.IH Cons.prems by auto
  have 1: "xrun (Content, (t, A, cs) # S, d) (CHR 0x0A # s) = Some (Content, (t, A, cs @ [g]) # S, d)"
    for t A cs S d
    using g(2) [of t A cs S d] by (simp add: space_chars)
  have "xrun (Content, (t, A, cs) # S, d) ((CHR 0x0A # s) @ concat (map (\<lambda>g. CHR 0x0A # g) gs))
        = Some (Content, (t, A, cs @ g # gkids) # S, d)" for t A cs S d
    unfolding xrun_then [OF 1] using gk(3) [of t A "cs @ [g]" S d] by simp
  then show ?case
    using g(1) gk(1,2) by (intro exI [of _ "g # gkids"]) simp
qed

subsection \<open>What the renderer writes into attribute values\<close>

lemma safe_value_append: "safe_value (a @ b) = (safe_value a \<and> safe_value b)"
  by (simp add: safe_value_def)

lemma safe_value_Nil: "safe_value []"
  by (simp add: safe_value_def)

lemma safe_value_Cons: "safe_value (c # s) = (value_char c \<and> safe_value s)"
  by (simp add: safe_value_def)

lemma safe_literals:
  "safe_value ''-''" "safe_value ''.''" "safe_value '';''"
  "safe_value ''0''" "safe_value ''1''" "safe_value ''2''" "safe_value ''s''" "safe_value ''f''"
  "safe_value ''bg''" "safe_value ''0 0 ''" "safe_value '' ''"
  "safe_value ''opacity''" "safe_value ''indefinite''" "safe_value ''discrete''"
  "safe_value ''http://www.w3.org/2000/svg''"
  by (simp_all add: safe_value_def value_char_def)

lemma digit_safe:
  assumes "n < 10"
  shows "value_char (''0123456789'' ! n)"
proof -
  have "list_all value_char ''0123456789''" by (simp add: value_char_def)
  moreover have "n < length ''0123456789''" using assms by simp
  ultimately show ?thesis unfolding list_all_length by blast
qed

lemma safe_digits: "safe_value (digits_of n)"
proof (induction n rule: digits_of.induct)
  case (1 n)
  show ?case
  proof (cases "n < 10")
    case True
    then show ?thesis by (simp add: digits_of_small safe_value_Cons safe_value_Nil digit_safe del: nth_Cons_numeral)
  next
    case False
    have "n mod 10 < 10" by simp
    then have "value_char (''0123456789'' ! (n mod 10))" by (rule digit_safe)
    then show ?thesis
      using False "1.IH"
      by (simp add: digits_of_big safe_value_append safe_value_Cons safe_value_Nil del: nth_Cons_numeral)
  qed
qed

lemma digits_of_nonempty: "digits_of n \<noteq> []"
  by (cases "n < 10") (simp_all add: digits_of_small digits_of_big)

lemma safe_py_str: "safe_value (py_str n)"
  using safe_literals(1) by (simp add: py_str_def safe_digits safe_value_Cons safe_value_Nil)

lemma py_str_nonempty: "py_str n \<noteq> []"
  by (simp add: py_str_def digits_of_nonempty)

lemma safe_replicate: "value_char c \<Longrightarrow> safe_value (replicate n c)"
  by (induction n) (simp_all add: safe_value_Cons safe_value_Nil)

lemma safe_zero_pad: "safe_value s \<Longrightarrow> safe_value (zero_pad p s)"
  using safe_literals(4) by (simp add: zero_pad_def safe_value_append safe_replicate safe_value_Cons)

lemma safe_fmt_fixed: "safe_value (fmt_fixed p x)"
  using safe_literals(1,2)
  by (simp add: fmt_fixed_def Let_def safe_value_append safe_digits safe_zero_pad safe_value_Nil
      safe_value_Cons)

lemma safe_rstrip:
  assumes "safe_value s"
  shows "safe_value (py_rstrip c s)"
proof -
  have "set (py_rstrip c s) \<subseteq> set s"
    unfolding py_rstrip_def using set_dropWhileD [of _ "\<lambda>d. d = c" "rev s"] by auto
  then show ?thesis using assms unfolding safe_value_def list_all_iff by blast
qed

lemma safe_fmt_key_time: "safe_value (fmt_key_time t)"
  using safe_literals(4,5) by (simp add: fmt_key_time_def safe_rstrip safe_fmt_fixed)

lemma safe_join: "safe_value sep \<Longrightarrow> list_all safe_value xs \<Longrightarrow> safe_value (py_join sep xs)"
  by (induction sep xs rule: py_join.induct) (simp_all add: safe_value_append safe_value_Nil)

lemma safe_key_times_str: "safe_value (key_times_str fl n)"
  unfolding key_times_str_def
  by (rule safe_join [OF safe_literals(3)]) (simp add: list_all_iff safe_fmt_key_time)

lemma safe_opacity_values: "safe_value (py_join '';'' (opacity_values n k))"
proof (rule safe_join [OF safe_literals(3)])
  show "list_all safe_value (opacity_values n k)"
    unfolding opacity_values_def list_all_iff using safe_literals(4,5) by auto
qed

lemma rect_tag:
  "rect cell x y fill =
     empty_tag ''rect'' [(''x'', py_str x), (''y'', py_str y), (''width'', py_str cell),
       (''height'', py_str cell), (''rx'', ''2''), (''ry'', ''2''), (''fill'', fill)]"
  by (simp add: rect_def empty_tag_def attr_markup_def)

lemma attr_names:
  "valid_name ''x''" "valid_name ''y''" "valid_name ''width''" "valid_name ''height''"
  "valid_name ''rx''" "valid_name ''ry''" "valid_name ''fill''" "valid_name ''id''"
  "valid_name ''opacity''" "valid_name ''attributeName''" "valid_name ''dur''"
  "valid_name ''repeatCount''" "valid_name ''calcMode''" "valid_name ''keyTimes''"
  "valid_name ''values''" "valid_name ''xmlns''" "valid_name ''viewBox''"
  by (simp_all add: valid_name_def name_start_def name_char_def)

lemma rect_attrs_ok:
  assumes "safe_value fill"
  shows "ok_attrs [(''x'', py_str x), (''y'', py_str y), (''width'', py_str cell),
       (''height'', py_str cell), (''rx'', ''2''), (''ry'', ''2''), (''fill'', fill)]"
  using assms by (simp add: ok_attrs_def attr_names safe_py_str safe_literals)

lemma cells_empty_tags:
  assumes "cells_inv cell fill cells" and "safe_value fill"
  shows "empty_tags cells"
  unfolding empty_tags_def list_all_iff
proof
  fix s assume "s \<in> set cells"
  then obtain x y where "s = rect cell x y fill" using assms(1) by (auto simp: cells_inv_def)
  then show "\<exists>nm ats. s = empty_tag nm ats \<and> valid_name nm \<and> ok_attrs ats"
    using rect_tag [of cell x y fill] rect_attrs_ok [OF assms(2), of x y cell] valid_names(4) by blast
qed

lemma background_cells: "cells_inv cell dead_color (background rows cols cell gap dead_color)"
  by (auto simp: cells_inv_def background_def)

lemma frame_group_tag:
  \<open>frame_group k cells dur kts vals =
     start_tag ''g'' [(''id'', ''f'' @ py_str (int k)), (''opacity'', if k = 0 then ''1'' else ''0'')]
     @ concat cells
     @ empty_tag ''animate'' [(''attributeName'', ''opacity''), (''dur'', dur @ ''s''),
         (''repeatCount'', ''indefinite''), (''calcMode'', ''discrete''), (''keyTimes'', kts),
         (''values'', vals)]
     @ end_tag ''g''\<close>
  by (simp add: frame_group_def start_tag_def empty_tag_def end_tag_def attr_markup_def)

lemma frame_group_markup:
  assumes "cells_inv cell fill cells" and "safe_value fill"
    and "safe_value dur" and "safe_value kts" and "safe_value vals"
  shows "group_markup (frame_group k cells dur kts vals)"
  unfolding group_markup_def frame_group_tag
proof (intro exI conjI)
  show "ok_attrs [(''id'', ''f'' @ py_str (int k)), (''opacity'', if k = 0 then ''1'' else ''0'')]"
    using safe_literals(4,5,8) safe_py_str [of "int k"]
    by (simp add: ok_attrs_def attr_names safe_value_Cons)
  show "ok_attrs [(''attributeName'', ''opacity''), (''dur'', dur @ ''s''),
         (''repeatCount'', ''indefinite''), (''calcMode'', ''discrete''), (''keyTimes'', kts),
         (''values'', vals)]"
    using assms(3,4,5) by (simp add: ok_attrs_def attr_names safe_value_append safe_literals)
  show "empty_tags cells" by (rule cells_empty_tags [OF assms(1,2)])
qed simp_all

subsection \<open>The document and its tree\<close>

lemma py_join_cons: "py_join sep (x # xs) = x @ concat (map (\<lambda>y. sep @ y) xs)"
  by (induction xs arbitrary: x) simp_all

lemma iter_self: "e \<in> set (iter e)"
  by (cases e) simp

lemma iter_child: "c \<in> set cs \<Longrightarrow> x \<in> set (iter c) \<Longrightarrow> x \<in> set (iter (Element t a cs))"
  by auto

lemma animated_has_animate:
  assumes "animated_group g"
  shows "\<exists>e \<in> set (iter (qualify (Some u) g)). tag e = ''{'' @ u @ ''}'' @ ''animate''"
proof -
  obtain ats kids ats' where g: "g = Element ''g'' ats (kids @ [Element ''animate'' ats' []])"
      "map_of ats ''xmlns'' = None" "map_of ats' ''xmlns'' = None"
    using assms unfolding animated_group_def by blast
  let ?a = "qualify (Some u) (Element ''animate'' ats' [])"
  have "tag ?a = ''{'' @ u @ ''}'' @ ''animate''" using g(3) by simp
  moreover have "qualify (Some u) g
        = Element (''{'' @ u @ ''}'' @ ''g'') (filter (\<lambda>kv. fst kv \<noteq> ''xmlns'') ats)
            (map (qualify (Some u)) kids @ [?a])"
    unfolding g(1) using g(2) by (simp add: Let_def)
  then have "?a \<in> set (iter (qualify (Some u) g))"
    using iter_child [of ?a "map (qualify (Some u)) kids @ [?a]" ?a] iter_self [of ?a] by simp
  ultimately show ?thesis by blast
qed

lemma bare_svg_tag:
  "start_tag ''svg'' ats = ''<svg'' @ concat (map attr_markup ats) @ ''>''"
  by (simp add: start_tag_def)

lemma parse_rendered:
  assumes ne: "frames \<noteq> []"
    and sh: "\<forall>f \<in> set frames. shaped (length (hd frames)) (ncols (hd frames)) f"
    and alive: "safe_value alive_color" and dead: "safe_value dead_color"
    and parts: "render_parts fl frames cell gap alive_color dead_color frame_duration = Inr parts"
  shows "\<exists>W H kids g.
           xml_parse (py_join [CHR 0x0A] parts)
             = Parsed (qualify None (Element ''svg''
                 [(''xmlns'', ''http://www.w3.org/2000/svg''), (''viewBox'', ''0 0 '' @ W @ '' '' @ H),
                  (''width'', W), (''height'', H)] kids))
         \<and> W \<noteq> [] \<and> H \<noteq> [] \<and> g \<in> set kids \<and> animated_group g"
proof -
  let ?rows = "int (length (hd frames))" and ?cols = "int (ncols (hd frames))"
  let ?W = "py_str (?cols * (cell + gap) - gap)" and ?H = "py_str (?rows * (cell + gap) - gap)"
  let ?As = "[(''xmlns'', ''http://www.w3.org/2000/svg''), (''viewBox'', ''0 0 '' @ ?W @ '' '' @ ?H),
              (''width'', ?W), (''height'', ?H)]"
  let ?grp = "\<lambda>(k, frame).
                frame_group k (cells_of ?rows ?cols cell gap alive_color frame)
                  (fmt_fixed 3 (fl (frame_duration * of_nat (length frames))))
                  (key_times_str fl (length frames))
                  (py_join '';'' (opacity_values (length frames) k))"
  let ?groups = "map ?grp (zip [0..<length frames] frames)"
  let ?bg = "start_tag ''g'' [(''id'', ''bg'')] @ concat (background ?rows ?cols cell gap dead_color)
             @ end_tag ''g''"
  have p: "parts = [xml_declaration, start_tag ''svg'' ?As, ?bg] @ ?groups @ [end_tag ''svg'']"
    using parts unfolding render_parts_ok [OF ne sh]
    by (simp add: xml_declaration_def start_tag_def end_tag_def attr_markup_def)
  let ?body = "CHR 0x0A # start_tag ''svg'' ?As @ CHR 0x0A # ?bg
               @ concat (map (\<lambda>g. CHR 0x0A # g) ?groups) @ CHR 0x0A # end_tag ''svg''"
  have "parts = xml_declaration # (start_tag ''svg'' ?As # ?bg # ?groups @ [end_tag ''svg''])"
    using p by simp
  then have doc: "py_join [CHR 0x0A] parts = xml_declaration @ ?body"
    by (simp only: py_join_cons) simp
  have body: "(if prefix xml_declaration (py_join [CHR 0x0A] parts)
               then drop (length xml_declaration) (py_join [CHR 0x0A] parts)
               else py_join [CHR 0x0A] parts) = ?body"
    unfolding doc by simp
  have okAs: "ok_attrs ?As"
  proof -
    have "safe_value (''0 0 '' @ ?W @ '' '' @ ?H)"
      by (simp only: safe_value_append safe_literals safe_py_str simp_thms)
    then show ?thesis
      by (simp add: ok_attrs_def attr_names safe_py_str safe_literals svg_namespace_def)
  qed
  have 1: "xrun (Content, [], None) (CHR 0x0A # start_tag ''svg'' ?As)
           = Some (Content, [(''svg'', ?As, [])], None)"
    using run_start_tag [OF valid_names(3) okAs, of "[]" None] by (simp add: space_chars)
  obtain gbg where gbg: "\<And>t A cs S d.
      xrun (Content, (t, A, cs) # S, d) ?bg = Some (Content, (t, A, cs @ [gbg]) # S, d)"
    using run_plain_group [of "[(''id'', ''bg'')]" "background ?rows ?cols cell gap dead_color"]
      cells_empty_tags [OF background_cells dead]
    by (auto simp: ok_attrs_def attr_names safe_literals)
  have 2: "xrun (Content, [(''svg'', ?As, [])], None) (CHR 0x0A # ?bg)
           = Some (Content, [(''svg'', ?As, [gbg])], None)"
    using gbg [of "''svg''" ?As "[]" "[]" None] by (simp add: space_chars)
  have "list_all group_markup ?groups"
    unfolding list_all_iff
  proof
    fix s assume "s \<in> set ?groups"
    then obtain k frame where kf: "s = ?grp (k, frame)" "frame \<in> set frames"
      by (auto dest: set_zip_rightD)
    then have "shaped (length (hd frames)) (ncols (hd frames)) frame" using sh by blast
    then have "cells_inv cell alive_color (cells_of ?rows ?cols cell gap alive_color frame)"
      by (rule cells_of_ok(2))
    then show "group_markup s"
      unfolding kf(1) prod.case
      by (rule frame_group_markup [OF _ alive safe_fmt_fixed safe_key_times_str safe_opacity_values])
  qed
  then obtain gkids where gk: "length gkids = length ?groups" "list_all animated_group gkids"
      "\<And>t A cs S d. xrun (Content, (t, A, cs) # S, d) (concat (map (\<lambda>g. CHR 0x0A # g) ?groups))
           = Some (Content, (t, A, cs @ gkids) # S, d)"
    using run_groups [of ?groups] by blast
  have 3: "xrun (Content, [(''svg'', ?As, [gbg])], None) (concat (map (\<lambda>g. CHR 0x0A # g) ?groups))
           = Some (Content, [(''svg'', ?As, [gbg] @ gkids)], None)"
    by (rule gk(3))
  have 4: "xrun (Content, [(''svg'', ?As, [gbg] @ gkids)], None) (CHR 0x0A # end_tag ''svg'')
           = Some (Content, [], Some (Element ''svg'' ?As ([gbg] @ gkids)))"
    using run_end_tag [OF valid_names(3), of ?As "[gbg] @ gkids" "[]" None]
    by (simp add: space_chars add_element_def)
  have run: "xrun (Content, [], None) ?body = Some (Content, [], Some (Element ''svg'' ?As ([gbg] @ gkids)))"
    using xrun_then [OF 1, of "CHR 0x0A # ?bg @ concat (map (\<lambda>g. CHR 0x0A # g) ?groups) @ CHR 0x0A # end_tag ''svg''"]
      xrun_then [OF 2, of "concat (map (\<lambda>g. CHR 0x0A # g) ?groups) @ CHR 0x0A # end_tag ''svg''"]
      xrun_then [OF 3, of "CHR 0x0A # end_tag ''svg''"] 4
    by simp
  have parse: "xml_parse (py_join [CHR 0x0A] parts)
               = Parsed (qualify None (Element ''svg'' ?As ([gbg] @ gkids)))"
    unfolding xml_parse_def Let_def body run by simp
  have "gkids \<noteq> []" using gk(1) ne by auto
  then have "hd gkids \<in> set ([gbg] @ gkids)" "animated_group (hd gkids)"
    using gk(2) by (auto simp: list_all_iff)
  then show ?thesis using parse py_str_nonempty by blast
qed

lemma validate_rendered_tree:
  assumes "W \<noteq> []" and "H \<noteq> []" and "g \<in> set kids" and "animated_group g"
  shows "validate_main (Some (qualify None (Element ''svg''
           [(''xmlns'', ''http://www.w3.org/2000/svg''), (''viewBox'', vb), (''width'', W), (''height'', H)]
           kids))) = 0"
proof -
  let ?u = "''http://www.w3.org/2000/svg''"
  let ?root = "Element (''{'' @ ?u @ ''}'' @ ''svg'') [(''viewBox'', vb), (''width'', W), (''height'', H)]
                 (map (qualify (Some ?u)) kids)"
  have q: "qualify None (Element ''svg''
           [(''xmlns'', ?u), (''viewBox'', vb), (''width'', W), (''height'', H)] kids) = ?root"
    by (simp add: Let_def)
  have "local_name (''{'' @ ?u @ ''}'' @ ''svg'') = ''svg''"
    by (rule local_name_qualified) simp
  then have "suffix ''svg'' (py_lower (local_name (tag ?root)))"
    by (simp add: py_lower_def lower_char_def)
  then have t: "py_endswith (py_lower (tag ?root)) ''svg''"
    unfolding py_endswith_def svg_suffix_local [of "tag ?root"] .
  have w: "\<not> falsy (element_get ?root ''width'')" "\<not> falsy (element_get ?root ''height'')"
    using assms(1,2) by (simp_all add: element_get_def falsy_def)
  obtain e where e: "e \<in> set (iter (qualify (Some ?u) g))" "tag e = ''{'' @ ?u @ ''}'' @ ''animate''"
    using animated_has_animate [OF assms(4), of ?u] by blast
  have "e \<in> set (iter ?root)"
    using iter_child [of "qualify (Some ?u) g" "map (qualify (Some ?u)) kids" e] assms(3) e(1) by simp
  moreover have "last (py_split CHR ''}'' (tag e)) = ''animate''"
    unfolding local_name_split e(2) by (rule local_name_qualified) simp
  ultimately have a: "''animate'' \<in> set (map (\<lambda>elem. last (py_split CHR ''}'' (tag elem))) (iter ?root))"
    by force
  show ?thesis
    unfolding q validate_main_def using t w a by (simp add: Let_def)
qed

section \<open>AnimationRenderer: the numbers it prints\<close>

subsection \<open>The digits and their value\<close>

lemma digit_val_nth: "d < 10 \<Longrightarrow> digit_val (''0123456789'' ! d) = Some d"
  by (auto simp: eval_nat_numeral less_Suc_eq digit_val_def)

lemma digits_val_append:
  "digits_val (xs @ ys) =
     (case digits_val xs of None \<Rightarrow> None
      | Some a \<Rightarrow> map_option (\<lambda>b. a * 10 ^ length ys + b) (digits_val ys))"
proof (induction xs)
  case Nil
  show ?case by (cases "digits_val ys") simp_all
next
  case (Cons c xs)
  show ?case
    by (cases "digit_val c"; cases "digits_val xs"; cases "digits_val ys")
       (simp_all add: Cons power_add algebra_simps)
qed

lemma digits_val_digits_of: "digits_val (digits_of n) = Some n"
proof (induction n rule: digits_of.induct)
  case (1 n)
  show ?case
  proof (cases "n < 10")
    case True
    then show ?thesis by (simp add: digits_of_small digit_val_nth del: nth_Cons_numeral)
  next
    case False
    have "n mod 10 < 10" by simp
    then have "digit_val (''0123456789'' ! (n mod 10)) = Some (n mod 10)" by (rule digit_val_nth)
    then show ?thesis using False "1.IH"
      by (simp add: digits_of_big digits_val_append del: nth_Cons_numeral)
  qed
qed

lemma digits_val_zeros: "digits_val (replicate k CHR ''0'') = Some 0"
  by (induction k) (simp_all add: digit_val_def)

lemma digits_val_no_point: "digits_val s = Some a \<Longrightarrow> CHR ''.'' \<notin> set s \<and> CHR ''-'' \<notin> set s"
proof (induction s arbitrary: a)
  case Nil
  then show ?case by simp
next
  case (Cons c s)
  then obtain d where d: "digit_val c = Some d" by (auto split: option.splits)
  then have "c \<noteq> CHR ''.''" "c \<noteq> CHR ''-''" by (auto simp: digit_val_def split: if_splits)
  moreover obtain b where "digits_val s = Some b" using Cons.prems d by (auto split: option.splits)
  ultimately show ?case using Cons.IH by auto
qed

lemma decimal_value_parts:
  assumes "digits_val A = Some a" and "A \<noteq> []" and "digits_val F = Some b"
  shows "decimal_value (A @ CHR ''.'' # F) = Some (of_nat a + of_nat b / 10 ^ length F)"
    and "decimal_value (CHR ''-'' # A @ CHR ''.'' # F) = Some (- (of_nat a + of_nat b / 10 ^ length F))"
    and "decimal_value A = Some (of_nat a)"
    and "decimal_value (CHR ''-'' # A) = Some (- of_nat a)"
proof -
  have np: "CHR ''.'' \<notin> set A" "CHR ''-'' \<notin> set A" using digits_val_no_point [OF assms(1)] by auto
  then have hd: "take 1 A \<noteq> ''-''" using assms(2) by (cases A) auto
  have all: "\<forall>x \<in> set A. x \<noteq> CHR ''.''" using np(1) by auto
  have tw: "takeWhile (\<lambda>c. c \<noteq> CHR ''.'') (A @ CHR ''.'' # F) = A"
    using all by (induction A) auto
  have tw2: "takeWhile (\<lambda>c. c \<noteq> CHR ''.'') A = A" using all by (induction A) auto
  have t1: "take 1 (A @ CHR ''.'' # F) \<noteq> ''-''" using hd assms(2) by (cases A) auto
  show "decimal_value (A @ CHR ''.'' # F) = Some (of_nat a + of_nat b / 10 ^ length F)"
    unfolding decimal_value_def Let_def using t1 assms by (simp add: tw)
  show "decimal_value (CHR ''-'' # A @ CHR ''.'' # F) = Some (- (of_nat a + of_nat b / 10 ^ length F))"
    unfolding decimal_value_def Let_def using assms by (simp add: tw)
  show "decimal_value A = Some (of_nat a)"
    unfolding decimal_value_def Let_def using hd assms by (simp add: tw2)
  show "decimal_value (CHR ''-'' # A) = Some (- of_nat a)"
    unfolding decimal_value_def Let_def using assms by (simp add: tw2)
qed

lemma digits_val_digits: "digits_val s = Some a \<Longrightarrow> set s \<subseteq> set ''0123456789''"
proof (induction s arbitrary: a)
  case Nil
  then show ?case by simp
next
  case (Cons c s)
  then obtain d where d: "digit_val c = Some d" by (auto split: option.splits)
  then have "c \<in> set ''0123456789''" by (auto simp: digit_val_def split: if_splits)
  moreover obtain b where "digits_val s = Some b" using Cons.prems d by (auto split: option.splits)
  ultimately show ?case using Cons.IH by auto
qed

lemma length_digits_of: "n < 10 ^ p \<Longrightarrow> 0 < p \<Longrightarrow> length (digits_of n) \<le> p"
proof (induction n arbitrary: p rule: digits_of.induct)
  case (1 n)
  show ?case
  proof (cases "n < 10")
    case True
    then show ?thesis using "1.prems" by (simp add: digits_of_small)
  next
    case False
    obtain q where p: "p = Suc q" using "1.prems"(2) by (cases p) auto
    have "q \<noteq> 0" using False "1.prems"(1) p by (cases q) auto
    moreover have "n div 10 < 10 ^ q" using "1.prems"(1) p by (simp add: less_mult_imp_div_less mult.commute)
    ultimately have "length (digits_of (n div 10)) \<le> q" using "1.IH" [of q] False by simp
    then show ?thesis using False p by (simp add: digits_of_big)
  qed
qed

lemma round_half_even_close: "\<bar>of_int (round_half_even y) - y\<bar> \<le> 1 / 2"
proof -
  define d where "d = y - of_int \<lfloor>y\<rfloor>"
  have d: "0 \<le> d" "d < 1" unfolding d_def by linarith+
  have y: "y = of_int \<lfloor>y\<rfloor> + d" unfolding d_def by simp
  have "round_half_even y = (if d < 1 / 2 then \<lfloor>y\<rfloor> else if 1 / 2 < d then \<lfloor>y\<rfloor> + 1
          else if even \<lfloor>y\<rfloor> then \<lfloor>y\<rfloor> else \<lfloor>y\<rfloor> + 1)"
    unfolding round_half_even_def Let_def d_def by simp
  then consider "of_int (round_half_even y) - y = - d" "d \<le> 1 / 2"
    | "of_int (round_half_even y) - y = 1 - d" "1 / 2 \<le> d"
    using y by (auto split: if_splits)
  then show ?thesis using d by cases (simp_all add: abs_if)
qed

lemma round_half_even_nonneg: "0 \<le> y \<Longrightarrow> 0 \<le> round_half_even y"
  unfolding round_half_even_def Let_def by auto

lemma decimal_fmt_fixed:
  assumes "0 < p"
  shows "decimal_value (fmt_fixed p x)
         = Some ((if x < 0 then - 1 else 1) * (of_int (round_half_even (\<bar>x\<bar> * 10 ^ p)) / 10 ^ p))"
proof -
  define m where "m = nat (round_half_even (\<bar>x\<bar> * 10 ^ p))"
  have m: "of_int (round_half_even (\<bar>x\<bar> * 10 ^ p)) = (of_nat m :: rat)"
    unfolding m_def using round_half_even_nonneg [of "\<bar>x\<bar> * 10 ^ p"] by simp
  let ?A = "digits_of (m div 10 ^ p)" and ?F = "zero_pad p (digits_of (m mod 10 ^ p))"
  have A: "digits_val ?A = Some (m div 10 ^ p)" "?A \<noteq> []"
    by (simp_all add: digits_val_digits_of digits_of_nonempty)
  have len: "length (digits_of (m mod 10 ^ p)) \<le> p"
    by (rule length_digits_of [OF _ assms]) simp
  have F: "digits_val ?F = Some (m mod 10 ^ p)" "length ?F = p"
    using len by (simp_all add: zero_pad_def digits_val_append digits_val_zeros digits_val_digits_of)
  have e: "(of_nat m :: rat) = of_nat (m div 10 ^ p) * 10 ^ p + of_nat (m mod 10 ^ p)"
    by (metis (no_types) div_mult_mod_eq of_nat_add of_nat_mult of_nat_numeral of_nat_power)
  have v: "(of_nat (m div 10 ^ p) + of_nat (m mod 10 ^ p) / 10 ^ p :: rat) = of_nat m / 10 ^ p"
    by (subst e) (simp add: field_simps)
  have f: "fmt_fixed p x = (if x < 0 then ''-'' else '''') @ ?A @ CHR ''.'' # ?F"
    unfolding fmt_fixed_def Let_def m_def by simp
  show ?thesis
    unfolding f m using decimal_value_parts(1,2) [OF A F(1)] F(2) v by simp
qed

lemma fmt_fixed_close:
  assumes "0 < p"
  shows "\<exists>d. decimal_value (fmt_fixed p x) = Some d \<and> \<bar>d - x\<bar> \<le> 1 / (2 * 10 ^ p)"
proof -
  let ?r = "of_int (round_half_even (\<bar>x\<bar> * 10 ^ p)) :: rat"
  have "\<bar>?r - \<bar>x\<bar> * 10 ^ p\<bar> \<le> 1 / 2" by (rule round_half_even_close)
  then have "\<bar>?r - \<bar>x\<bar> * 10 ^ p\<bar> / 10 ^ p \<le> (1 / 2) / 10 ^ p"
    by (rule divide_right_mono) simp
  moreover have "\<bar>?r - \<bar>x\<bar> * 10 ^ p\<bar> / 10 ^ p = \<bar>?r / 10 ^ p - \<bar>x\<bar>\<bar>"
  proof -
    have "?r / 10 ^ p - \<bar>x\<bar> = (?r - \<bar>x\<bar> * 10 ^ p) / 10 ^ p" by (simp add: field_simps)
    then show ?thesis by (simp add: abs_divide)
  qed
  ultimately have c: "\<bar>?r / 10 ^ p - \<bar>x\<bar>\<bar> \<le> 1 / (2 * 10 ^ p)" by simp
  have "\<bar>(if x < 0 then - 1 else 1) * (?r / 10 ^ p) - x\<bar> = \<bar>?r / 10 ^ p - \<bar>x\<bar>\<bar>"
    by (auto simp: abs_if)
  then show ?thesis using c decimal_fmt_fixed [OF assms, of x] by simp
qed

subsection \<open>Stripping the zeros keeps the value\<close>

lemma dropWhile_stop: "\<not> P y \<Longrightarrow> dropWhile P (xs @ y # ys) = dropWhile P xs @ y # ys"
  by (induction xs) auto

lemma py_rstrip_stop: "d \<noteq> c \<Longrightarrow> py_rstrip c (X @ d # F) = X @ d # py_rstrip c F"
  unfolding py_rstrip_def by (simp add: dropWhile_stop)

lemma py_rstrip_same: "py_rstrip c (X @ [c]) = py_rstrip c X"
  unfolding py_rstrip_def by simp

lemma py_rstrip_id: "X \<noteq> [] \<Longrightarrow> last X \<noteq> c \<Longrightarrow> py_rstrip c X = X"
  unfolding py_rstrip_def by (cases X rule: rev_cases) auto

lemma py_rstrip_last: "py_rstrip c s \<noteq> [] \<Longrightarrow> last (py_rstrip c s) \<noteq> c"
proof -
  assume a: "py_rstrip c s \<noteq> []"
  then have "dropWhile (\<lambda>d. d = c) (rev s) \<noteq> []" unfolding py_rstrip_def by simp
  then have "\<not> (hd (dropWhile (\<lambda>d. d = c) (rev s)) = c)" by (rule hd_dropWhile)
  then show ?thesis using a unfolding py_rstrip_def by (simp add: last_rev)
qed

lemma py_rstrip_split: "\<exists>j. s = py_rstrip c s @ replicate j c"
proof -
  have "rev s = takeWhile (\<lambda>d. d = c) (rev s) @ dropWhile (\<lambda>d. d = c) (rev s)" by simp
  then have "s = rev (dropWhile (\<lambda>d. d = c) (rev s)) @ rev (takeWhile (\<lambda>d. d = c) (rev s))"
    by (metis rev_append rev_rev_ident)
  moreover have "rev (takeWhile (\<lambda>d. d = c) (rev s)) = replicate (length (takeWhile (\<lambda>d. d = c) (rev s))) c"
  proof -
    have "\<forall>x \<in> set (rev (takeWhile (\<lambda>d. d = c) (rev s))). x = c"
      using set_takeWhileD [of _ "\<lambda>d. d = c" "rev s"] by auto
    then show ?thesis by (metis length_rev replicate_eqI)
  qed
  ultimately show ?thesis unfolding py_rstrip_def by metis
qed

lemma rstrip_decimal:
  assumes A: "digits_val A = Some a" "A \<noteq> []" and F: "digits_val F = Some b"
    and sg: "sg = [] \<or> sg = ''-''"
  shows "decimal_value (py_rstrip CHR ''.'' (py_rstrip CHR ''0'' (sg @ A @ CHR ''.'' # F)))
         = decimal_value (sg @ A @ CHR ''.'' # F)"
proof -
  let ?F' = "py_rstrip CHR ''0'' F"
  obtain j where j: "F = ?F' @ replicate j CHR ''0''" using py_rstrip_split by blast
  obtain b' where b': "digits_val ?F' = Some b'" "b = b' * 10 ^ j"
  proof (cases "digits_val ?F'")
    case None
    then have "digits_val (?F' @ replicate j CHR ''0'') = None" by (simp add: digits_val_append)
    then show ?thesis using F j by simp
  next
    case (Some b')
    then have "digits_val (?F' @ replicate j CHR ''0'') = Some (b' * 10 ^ j)"
      by (simp add: digits_val_append digits_val_zeros)
    then show ?thesis using that Some F j by simp
  qed
  have lenF: "length F = length ?F' + j" using j by (metis length_append length_replicate)
  have val: "(of_nat b / 10 ^ length F :: rat) = of_nat b' / 10 ^ length ?F'"
    unfolding lenF b'(2) by (simp add: power_add)
  have r0: "py_rstrip CHR ''0'' (sg @ A @ CHR ''.'' # F) = (sg @ A) @ CHR ''.'' # ?F'"
    using py_rstrip_stop [of "CHR ''.''" "CHR ''0''" "sg @ A" F] by simp
  have lastA: "last (sg @ A) \<noteq> CHR ''.''"
    using A digits_val_no_point [OF A(1)] by (metis last_appendR last_in_set)
  show ?thesis
  proof (cases "?F' = []")
    case True
    then have z: "b' = 0" using b'(1) by simp
    have "py_rstrip CHR ''.'' ((sg @ A) @ CHR ''.'' # ?F') = sg @ A"
      unfolding True using py_rstrip_same [of "CHR ''.''" "sg @ A"] py_rstrip_id [OF _ lastA] A(2)
      by simp
    then show ?thesis
      unfolding r0 using sg decimal_value_parts [OF A F] val z by auto
  next
    case False
    have "last ?F' \<noteq> CHR ''.''"
      using digits_val_no_point [OF b'(1)] False by (metis last_in_set)
    then have "py_rstrip CHR ''.'' ((sg @ A) @ CHR ''.'' # ?F') = (sg @ A) @ CHR ''.'' # ?F'"
      using False by (intro py_rstrip_id) simp_all
    then show ?thesis
      unfolding r0 using sg decimal_value_parts [OF A F] decimal_value_parts [OF A b'(1)] val by auto
  qed
qed

lemma fmt_fixed_shape:
  assumes "0 < p"
  shows "\<exists>sg A F a b. fmt_fixed p x = sg @ A @ CHR ''.'' # F \<and> (sg = [] \<or> sg = ''-'')
           \<and> digits_val A = Some a \<and> A \<noteq> [] \<and> digits_val F = Some b \<and> length F = p"
proof -
  define m where "m = nat (round_half_even (\<bar>x\<bar> * 10 ^ p))"
  let ?A = "digits_of (m div 10 ^ p)" and ?F = "zero_pad p (digits_of (m mod 10 ^ p))"
  have A: "digits_val ?A = Some (m div 10 ^ p)" "?A \<noteq> []"
    by (simp_all add: digits_val_digits_of digits_of_nonempty)
  have len: "length (digits_of (m mod 10 ^ p)) \<le> p"
    by (rule length_digits_of [OF _ assms]) simp
  have F: "digits_val ?F = Some (m mod 10 ^ p)" "length ?F = p"
    using len by (simp_all add: zero_pad_def digits_val_append digits_val_zeros digits_val_digits_of)
  have f: "fmt_fixed p x = (if x < 0 then ''-'' else '''') @ ?A @ CHR ''.'' # ?F"
    unfolding fmt_fixed_def Let_def m_def by simp
  show ?thesis using f A F by (intro exI [of _ "if x < 0 then ''-'' else ''''"] exI [of _ ?A] exI [of _ ?F] exI) auto
qed

lemma fmt_key_time_close:
  "\<exists>v. decimal_value (fmt_key_time t) = Some v \<and> \<bar>v - t\<bar> \<le> 1 / (2 * 10 ^ 6)"
proof (cases "t \<noteq> 0 \<and> t \<noteq> 1")
  case True
  obtain sg A F a b where s: "fmt_fixed 6 t = sg @ A @ CHR ''.'' # F" "sg = [] \<or> sg = ''-''"
      "digits_val A = Some a" "A \<noteq> []" "digits_val F = Some b"
    using fmt_fixed_shape [of 6 t, OF zero_less_numeral] by blast
  have "decimal_value (fmt_key_time t) = decimal_value (fmt_fixed 6 t)"
    using True unfolding fmt_key_time_def s(1) by (simp add: rstrip_decimal [OF s(3,4,5,2)])
  then show ?thesis using fmt_fixed_close [of 6 t] by simp
next
  case False
  have "decimal_value ''0'' = Some 0" "decimal_value ''1'' = Some 1"
    by (simp_all add: decimal_value_def digit_val_def)
  then show ?thesis using False by (auto simp: fmt_key_time_def)
qed

subsection \<open>The cells, the key times and the values\<close>














subsection \<open>Some printed numbers\<close>









section \<open>AnimationRenderer: the claims\<close>

text \<open>
  Claim C9. With no frames \<^verbatim>\<open>render_animated_svg\<close> raises \<^verbatim>\<open>ValueError\<close>, and the world is
  what it was, whatever the operating system would do: the check comes before any call
  to it, so no directory is made and nothing is written.
\<close>

theorem render_empty_frames:
  "render_animated_svg os fl [] cell gap alive_color dead_color frame_duration out_path w
   = (Inl (ValueError ''No frames to render''), w)"
  by (simp add: render_animated_svg_def)



end
